theory Spec2Isabelle
  imports Complex_Main "HOL-Library.Word"
begin

unbundle bit_operations_syntax

section \<open>Numbers and the binary32 wire format\<close>

text \<open>
  A JavaScript \<open>number\<close>. The finite values are rationals (every IEEE double is one);
  \<open>Finite 0\<close> is the positive zero and \<open>NegZero\<close> the negative one, which
  \<open>DataView.setFloat32\<close> writes with a different sign bit.
\<close>

datatype number = NaN | PosInfinity | NegInfinity | NegZero | Finite rat

type_synonym byte = "8 word"

text \<open>The bit pattern of an IEEE-754 single-precision value.\<close>

type_synonym float32 = "32 word"

text \<open>\<open>Number.isNaN\<close>.\<close>

fun Number_isNaN :: "number \<Rightarrow> bool" where
  "Number_isNaN NaN = True"
| "Number_isNaN _ = False"

text \<open>Rounding of a rational to the nearest integer, ties to the even one.\<close>

definition roundTiesToEven :: "rat \<Rightarrow> int" where
  "roundTiesToEven q =
     (let n = \<lfloor>q\<rfloor>; r = q - of_int n
      in if r < 1 / 2 then n
         else if 1 / 2 < r then n + 1
         else if even n then n else n + 1)"

text \<open>
  The binade of a positive rational: the least exponent \<open>E\<close> from \<open>-126\<close> (where the
  subnormal numbers live) to \<open>127\<close> with \<open>a < 2 ^ (E + 1)\<close>, and \<open>128\<close> when the
  number is beyond the binary32 range.
\<close>

definition float32_exponent :: "rat \<Rightarrow> int" where
  "float32_exponent a =
     (case find (\<lambda>E. a < 2 powi (E + 1)) [-126..127] of
        Some E \<Rightarrow> E
      | None \<Rightarrow> 128)"

text \<open>
  The exponent and fraction fields (the low 31 bits) of the binary32 value nearest to a
  positive rational: the significand is rounded to 24 bits, a carry out of the
  significand moves to the next exponent, and what exceeds the largest finite value
  becomes the pattern of infinity.
\<close>

definition float32_magnitude :: "rat \<Rightarrow> int" where
  "float32_magnitude a =
     (let E = float32_exponent a;
          M = roundTiesToEven (a / 2 powi (E - 23))
      in min ((E + 126) * 2 ^ 23 + M) (255 * 2 ^ 23))"

text \<open>
  The conversion of a number to binary32 that \<open>setFloat32\<close> performs before it stores
  the value. The pattern written for NaN is the quiet NaN.
\<close>

fun toFloat32 :: "number \<Rightarrow> float32" where
  "toFloat32 NaN = 0x7FC00000"
| "toFloat32 PosInfinity = 0x7F800000"
| "toFloat32 NegInfinity = 0xFF800000"
| "toFloat32 NegZero = 0x80000000"
| "toFloat32 (Finite q) =
     (if q = 0 then 0
      else if 0 < q then word_of_int (float32_magnitude q)
      else 0x80000000 + word_of_int (float32_magnitude (- q)))"

definition exponent_field :: "float32 \<Rightarrow> nat" where
  "exponent_field v = unat (take_bit 8 (drop_bit 23 v))"

definition fraction_field :: "float32 \<Rightarrow> nat" where
  "fraction_field v = unat (take_bit 23 v)"

definition sign_bit :: "float32 \<Rightarrow> bool" where
  "sign_bit v = bit v 31"

text \<open>The number a binary32 pattern stands for: what \<open>getFloat32\<close> returns.\<close>

definition fromFloat32 :: "float32 \<Rightarrow> number" where
  "fromFloat32 v =
     (let e = exponent_field v; f = fraction_field v
      in if e = 255 then
           (if f = 0 then (if sign_bit v then NegInfinity else PosInfinity) else NaN)
         else if e = 0 \<and> f = 0 then
           (if sign_bit v then NegZero else Finite 0)
         else
           Finite ((if sign_bit v then - 1 else 1) *
                   (if e = 0 then of_nat f * 2 powi (- 149)
                    else of_nat (2 ^ 23 + f) * 2 powi (int e - 150))))"

definition is_finite32 :: "float32 \<Rightarrow> bool" where
  "is_finite32 v = (exponent_field v \<noteq> 255)"

subsection \<open>Errors\<close>

text \<open>
  The texts of the messages. The ones the sources write in Japanese are constructors:
  \<open>InvalidNumberText\<close> is the message of the command loop for a NaN field,
  \<open>NoWriteCharacteristicText\<close> the one of \<open>writeCommand\<close> without a characteristic,
  \<open>UnexpectedDisconnectText\<close> the alert of \<open>handleDisconnected\<close>, and
  \<open>NoWebBluetoothText\<close> the alert of \<open>connect\<close> in a browser without Web Bluetooth.
\<close>

datatype message =
    Str string
  | InvalidNumberText
  | NoWriteCharacteristicText
  | UnexpectedDisconnectText
  | NoWebBluetoothText

text \<open>
  What can be thrown: \<open>Error\<close> is \<open>new Error(message)\<close> of the sources,
  \<open>RangeError\<close> the out-of-bounds access of a \<open>DataView\<close>, and
  \<open>DOMException name message\<close> a rejection by the platform.
\<close>

datatype error =
    Error message
  | RangeError
  | DOMException string string

subsection \<open>DataView\<close>

text \<open>A \<open>DataView\<close> is the list of the bytes it shows; \<open>byteLength\<close> is its length.\<close>

type_synonym DataView = "byte list"

definition float32_bytes :: "float32 \<Rightarrow> bool \<Rightarrow> byte list" where
  "float32_bytes v littleEndian =
     (let bs = [ucast v, ucast (drop_bit 8 v), ucast (drop_bit 16 v), ucast (drop_bit 24 v)]
      in if littleEndian then bs else rev bs)"

definition bytes_float32 :: "byte list \<Rightarrow> bool \<Rightarrow> float32" where
  "bytes_float32 bs littleEndian =
     (let ls = (if littleEndian then bs else rev bs)
      in ucast (ls ! 0) OR push_bit 8 (ucast (ls ! 1)) OR
         push_bit 16 (ucast (ls ! 2)) OR push_bit 24 (ucast (ls ! 3)))"

definition setFloat32 :: "nat \<Rightarrow> number \<Rightarrow> bool \<Rightarrow> DataView \<Rightarrow> error + DataView" where
  "setFloat32 byteOffset v littleEndian view =
     (if length view < byteOffset + 4 then Inl RangeError
      else Inr (take byteOffset view @ float32_bytes (toFloat32 v) littleEndian @
                drop (byteOffset + 4) view))"

definition getFloat32 :: "nat \<Rightarrow> bool \<Rightarrow> DataView \<Rightarrow> error + number" where
  "getFloat32 byteOffset littleEndian view =
     (if length view < byteOffset + 4 then Inl RangeError
      else Inr (fromFloat32 (bytes_float32 (take 4 (drop byteOffset view)) littleEndian)))"

subsection \<open>The codec\<close>

record Command =
  vx :: number
  vy :: number
  w :: number

record Odometry =
  x :: number
  y :: number
  yaw :: number

text \<open>\<open>BluetoothService.#encodeCommand\<close>: a fresh buffer of 12 zero bytes, three stores.\<close>

definition encodeCommand :: "Command \<Rightarrow> error + byte list" where
  "encodeCommand command =
     (let view = replicate 12 0
      in case setFloat32 0 (vx command) True view of
           Inl e \<Rightarrow> Inl e
         | Inr view1 \<Rightarrow>
             (case setFloat32 4 (vy command) True view1 of
                Inl e \<Rightarrow> Inl e
              | Inr view2 \<Rightarrow> setFloat32 8 (w command) True view2))"

definition payload_too_short :: error where
  "payload_too_short = Error (Str ''Notification payload shorter than 12 bytes.'')"

text \<open>\<open>decodeOdometry\<close> of the application.\<close>

definition decodeOdometry :: "DataView \<Rightarrow> error + Odometry" where
  "decodeOdometry view =
     (if length view < 12 then Inl payload_too_short
      else case getFloat32 0 True view of
             Inl e \<Rightarrow> Inl e
           | Inr a \<Rightarrow>
               (case getFloat32 4 True view of
                  Inl e \<Rightarrow> Inl e
                | Inr b \<Rightarrow>
                    (case getFloat32 8 True view of
                       Inl e \<Rightarrow> Inl e
                     | Inr c \<Rightarrow> Inr \<lparr>x = a, y = b, yaw = c\<rparr>)))"

section \<open>The Bluetooth service and the application\<close>

text \<open>
  The calls that leave the program, in the order they are made: the trace a test double
  of the browser would record.
\<close>

datatype effect =
    SetInterval nat nat
  | ClearInterval nat
  | GetCommand nat
  | OnError nat message
  | ConsoleError error
  | ConsoleWarn error
  | WriteValueWithoutResponse "byte list"
  | WriteValueWithResponse "byte list"
  | RequestDevice
  | GattConnect
  | GattDisconnect
  | StopNotifications
  | OnDisconnect
  | Alert message
  | Push Odometry
  | ClearOdometry

text \<open>
  Where a call of \<open>BluetoothService.connect\<close> is suspended: at \<open>requestDevice\<close>,
  \<open>gatt.connect\<close>, \<open>getPrimaryService\<close>, \<open>getCharacteristic\<close> or
  \<open>startNotifications\<close>.
\<close>

datatype connect_stage =
    RequestingDevice
  | ConnectingGatt
  | GettingService
  | GettingCharacteristic
  | StartingNotifications

text \<open>How a step of an asynchronous function ends.\<close>

datatype 'a progress = Awaiting 'a | Returned | Threw error

text \<open>
  One state for the program and the browser around it. There is one remote device, as the
  link targets one endpoint; objects of the platform (device, server, characteristic) are
  \<open>unit\<close> handles and a field that is \<open>undefined\<close> is \<open>None\<close>.
  \<^item> The private fields of \<open>BluetoothService\<close>, under their names.
  \<^item> The state of \<open>App\<close>: the three \<open>useState\<close> values, the values of them that
    the closures of the last render hold (\<open>seen...\<close>), and \<open>userDisconnectRef\<close>.
  \<^item> The browser: whether \<open>navigator.bluetooth\<close>, \<open>device.gatt\<close> and
    \<open>writeValueWithoutResponse\<close> exist, \<open>device.gatt.connected\<close>, the listeners
    attached to the device and to the characteristic, the active interval timers with the
    accessor and the error handler their callback closes over, and a counter for the
    identities of timers and closures.
  \<^item> The asynchronous calls waiting for the browser: the ticks waiting for a write
    (interval and error handler), the calls of \<open>connect\<close>, and the calls of
    \<open>disconnectDevice\<close> waiting for \<open>stopNotifications\<close> (\<open>True\<close> for the
    call made by the \<open>catch\<close> of \<open>connect\<close>).
\<close>

record World =
  device :: "unit option"
  server :: "unit option"
  writeChar :: "unit option"
  notifyChar :: "unit option"
  notifyHandler :: "nat option"
  disconnectHandler :: "nat option"
  writeLoopId :: "nat option"
  writeBusy :: bool
  isConnecting :: bool
  isDisconnecting :: bool
  isConnected :: bool
  seenConnecting :: bool
  seenDisconnecting :: bool
  seenConnected :: bool
  userDisconnectRef :: bool
  bluetooth :: bool
  gatt :: bool
  withoutResponse :: bool
  serverConnected :: bool
  disconnectListeners :: "nat list"
  valueListeners :: "nat list"
  intervals :: "(nat \<times> nat \<times> nat) list"
  fresh :: nat
  writes :: "(nat \<times> nat) list"
  connects :: "connect_stage list"
  disconnects :: "bool list"
  effects :: "effect list"

text \<open>The page after loading: \<open>new BluetoothService()\<close> and the first render.\<close>

definition initial :: "bool \<Rightarrow> bool \<Rightarrow> bool \<Rightarrow> World" where
  "initial hasBluetooth hasGatt hasWithoutResponse =
     \<lparr>device = None, server = None, writeChar = None, notifyChar = None,
      notifyHandler = None, disconnectHandler = None, writeLoopId = None,
      writeBusy = False, isConnecting = False, isDisconnecting = False,
      isConnected = False, seenConnecting = False, seenDisconnecting = False,
      seenConnected = False, userDisconnectRef = False,
      bluetooth = hasBluetooth, gatt = hasGatt, withoutResponse = hasWithoutResponse,
      serverConnected = False, disconnectListeners = [], valueListeners = [],
      intervals = [], fresh = 1, writes = [], connects = [], disconnects = [],
      effects = []\<rparr>"

definition emit :: "effect list \<Rightarrow> World \<Rightarrow> World" where
  "emit es s = s\<lparr>effects := effects s @ es\<rparr>"

subsection \<open>The command loop\<close>

text \<open>\<open>stopCommandLoop\<close>.\<close>

definition stopCommandLoop :: "World \<Rightarrow> World" where
  "stopCommandLoop s =
     (case writeLoopId s of
        Some i \<Rightarrow>
          emit [ClearInterval i]
            (s\<lparr>intervals := filter (\<lambda>t. fst t \<noteq> i) (intervals s), writeLoopId := None\<rparr>)
      | None \<Rightarrow> s)
     \<lparr>writeBusy := False\<rparr>"

text \<open>
  \<open>startCommandLoop\<close>. The accessor and the error handler are identities of closures;
  the callback of the interval is \<open>tick\<close> below.
\<close>

definition startCommandLoop :: "nat \<Rightarrow> nat \<Rightarrow> nat \<Rightarrow> World \<Rightarrow> World" where
  "startCommandLoop getCommand onError intervalMs s =
     (if writeLoopId s \<noteq> None then s
      else
        let i = fresh s
        in emit [SetInterval i intervalMs]
             (s\<lparr>writeLoopId := Some i,
                intervals := intervals s @ [(i, getCommand, onError)],
                fresh := i + 1\<rparr>))"

text \<open>
  \<open>writeCommand\<close> up to the write it awaits: \<open>Inl\<close> when it throws before it reaches
  the characteristic.
\<close>

definition writeCommand :: "Command \<Rightarrow> World \<Rightarrow> error + World" where
  "writeCommand command s =
     (case writeChar s of
        None \<Rightarrow> Inl (Error NoWriteCharacteristicText)
      | Some _ \<Rightarrow>
          (case encodeCommand command of
             Inl e \<Rightarrow> Inl e
           | Inr payload \<Rightarrow>
               Inr (emit [if withoutResponse s then WriteValueWithoutResponse payload
                          else WriteValueWithResponse payload] s)))"

fun error_message :: "error \<Rightarrow> message" where
  "error_message (Error m) = m"
| "error_message RangeError = Str ''Offset is outside the bounds of the DataView''"
| "error_message (DOMException n m) = Str m"

fun error_name :: "error \<Rightarrow> string" where
  "error_name (Error m) = ''Error''"
| "error_name RangeError = ''RangeError''"
| "error_name (DOMException n m) = n"

text \<open>The \<open>catch\<close> and the \<open>finally\<close> of a tick, and the \<open>finally\<close> alone.\<close>

definition tick_failed :: "nat \<Rightarrow> error \<Rightarrow> World \<Rightarrow> World" where
  "tick_failed onError err s =
     (stopCommandLoop (emit [ConsoleError err, OnError onError (error_message err)] s))
     \<lparr>writeBusy := False\<rparr>"

definition tick_finally :: "World \<Rightarrow> World" where
  "tick_finally s = s\<lparr>writeBusy := False\<rparr>"

text \<open>
  The callback of the interval \<open>i\<close>, up to the write it awaits; \<open>command\<close> is what the
  accessor returns when it is called.
\<close>

definition tick :: "nat \<Rightarrow> nat \<Rightarrow> nat \<Rightarrow> Command \<Rightarrow> World \<Rightarrow> World" where
  "tick i getCommand onError command s =
     (if writeBusy s then s
      else
        let s1 = emit [GetCommand getCommand] (s\<lparr>writeBusy := True\<rparr>)
        in if Number_isNaN (vx command) \<or> Number_isNaN (vy command) \<or>
              Number_isNaN (w command)
           then tick_failed onError (Error InvalidNumberText) s1
           else (case writeCommand command s1 of
                   Inl err \<Rightarrow> tick_failed onError err s1
                 | Inr s2 \<Rightarrow> s2\<lparr>writes := writes s2 @ [(i, onError)]\<rparr>))"

text \<open>The browser fires the interval \<open>i\<close>, if it is active.\<close>

definition timerFires :: "nat \<Rightarrow> Command \<Rightarrow> World \<Rightarrow> World" where
  "timerFires i command s =
     (case find (\<lambda>t. fst t = i) (intervals s) of
        None \<Rightarrow> s
      | Some (_, getCommand, onError) \<Rightarrow> tick i getCommand onError command s)"

text \<open>The browser settles the \<open>k\<close>-th pending write: fulfilled, or rejected with an error.\<close>

definition writeSettles :: "nat \<Rightarrow> error option \<Rightarrow> World \<Rightarrow> World" where
  "writeSettles k result s =
     (if k < length (writes s) then
        let onError = snd (writes s ! k);
            s1 = s\<lparr>writes := take k (writes s) @ drop (Suc k) (writes s)\<rparr>
        in (case result of
              None \<Rightarrow> tick_finally s1
            | Some err \<Rightarrow> tick_failed onError err s1)
      else s)"

subsection \<open>The application's handlers\<close>

text \<open>
  \<open>handleDisconnected\<close>, which \<open>connect\<close> passes as \<open>onDisconnect\<close>.
\<close>

definition handleDisconnected :: "World \<Rightarrow> World" where
  "handleDisconnected s =
     (let s1 = emit [ClearOdometry] ((stopCommandLoop s)\<lparr>isConnected := False\<rparr>);
          s2 = (if \<not> userDisconnectRef s1 then emit [Alert UnexpectedDisconnectText] s1
                else s1)
      in s2\<lparr>userDisconnectRef := False\<rparr>)"

text \<open>
  The handler that \<open>connect\<close> passes as \<open>onNotify\<close>: it decodes, and reports what
  \<open>decodeOdometry\<close> throws.
\<close>

definition onNotify :: "DataView \<Rightarrow> World \<Rightarrow> World" where
  "onNotify view s =
     (case decodeOdometry view of
        Inr odometry \<Rightarrow> emit [Push odometry] s
      | Inl err \<Rightarrow> emit [Alert (error_message err)] s)"

text \<open>
  The browser dispatches \<open>gattserverdisconnected\<close>: every listener attached to the
  device calls \<open>handlers.onDisconnect\<close>.
\<close>

definition dispatchDisconnected :: "World \<Rightarrow> World" where
  "dispatchDisconnected s =
     fold (\<lambda>l t. handleDisconnected (emit [OnDisconnect] t)) (disconnectListeners s) s"

text \<open>
  \<open>server.disconnect()\<close> of Web Bluetooth on a connected server: the connection is
  closed and the event is fired before the call returns.
\<close>

definition gattDisconnect :: "World \<Rightarrow> World" where
  "gattDisconnect s = dispatchDisconnected (emit [GattDisconnect] (s\<lparr>serverConnected := False\<rparr>))"

subsection \<open>BluetoothService.disconnect and disconnectDevice\<close>

text \<open>
  \<open>BluetoothService.disconnect\<close> after \<open>#stopNotifications\<close> has waited for the
  characteristic: the last line of \<open>#stopNotifications\<close> and the rest of \<open>disconnect\<close>.
\<close>

definition service_disconnect_rest :: "World \<Rightarrow> World" where
  "service_disconnect_rest s =
     (let s1 = s\<lparr>notifyHandler := None\<rparr>;
          s2 = (if server s1 \<noteq> None \<and> serverConnected s1 then gattDisconnect s1 else s1);
          s3 = (case (device s2, disconnectHandler s2) of
                  (Some _, Some l) \<Rightarrow>
                    s2\<lparr>disconnectListeners := removeAll l (disconnectListeners s2)\<rparr>
                | _ \<Rightarrow> s2)
      in s3\<lparr>device := None, server := None, writeChar := None, notifyChar := None,
            disconnectHandler := None\<rparr>)"

text \<open>The lines of \<open>disconnectDevice\<close> after \<open>await bleServiceRef.current.disconnect()\<close>.\<close>

definition disconnectDevice_rest :: "World \<Rightarrow> World" where
  "disconnectDevice_rest s =
     s\<lparr>isConnected := False, isDisconnecting := False, userDisconnectRef := False\<rparr>"

text \<open>The \<open>finally\<close> of \<open>connect\<close>.\<close>

definition connect_finally :: "World \<Rightarrow> World" where
  "connect_finally s = s\<lparr>isConnecting := False\<rparr>"

text \<open>
  What runs once the service has disconnected: the rest of \<open>disconnectDevice\<close> and,
  when \<open>connect\<close> awaited it in its \<open>catch\<close>, the \<open>finally\<close> of \<open>connect\<close>.
\<close>

definition disconnect_done :: "bool \<Rightarrow> World \<Rightarrow> World" where
  "disconnect_done fromConnect s =
     (let s1 = disconnectDevice_rest (service_disconnect_rest s)
      in if fromConnect then connect_finally s1 else s1)"

text \<open>
  \<open>BluetoothService.disconnect\<close> from its first line: \<open>#stopNotifications\<close> removes
  the listener and waits for the characteristic when there is a subscription, and goes
  on at once when there is none.
\<close>

definition service_disconnect :: "bool \<Rightarrow> World \<Rightarrow> World" where
  "service_disconnect fromConnect s =
     (case (notifyChar s, notifyHandler s) of
        (Some _, Some l) \<Rightarrow>
          emit [StopNotifications]
            (s\<lparr>valueListeners := removeAll l (valueListeners s),
               disconnects := disconnects s @ [fromConnect]\<rparr>)
      | _ \<Rightarrow> disconnect_done fromConnect s)"

text \<open>\<open>disconnectDevice\<close>.\<close>

definition disconnectDevice :: "bool \<Rightarrow> World \<Rightarrow> World" where
  "disconnectDevice fromConnect s =
     service_disconnect fromConnect
       (stopCommandLoop (s\<lparr>userDisconnectRef := True, isDisconnecting := True\<rparr>))"

text \<open>
  The browser settles \<open>stopNotifications\<close> of the \<open>k\<close>-th waiting call; a rejection is
  logged and nothing more.
\<close>

definition stopNotificationsSettles :: "nat \<Rightarrow> error option \<Rightarrow> World \<Rightarrow> World" where
  "stopNotificationsSettles k result s =
     (if k < length (disconnects s) then
        let fromConnect = disconnects s ! k;
            s1 = s\<lparr>disconnects := take k (disconnects s) @ drop (Suc k) (disconnects s)\<rparr>;
            s2 = (case result of None \<Rightarrow> s1 | Some err \<Rightarrow> emit [ConsoleWarn err] s1)
        in disconnect_done fromConnect s2
      else s)"

subsection \<open>BluetoothService.connect and connect\<close>

text \<open>
  \<open>BluetoothService.connect\<close> from one \<open>await\<close> to the next, given how the awaited
  call settled. The fields \<open>#device\<close>, \<open>#server\<close>, \<open>#writeChar\<close> and
  \<open>#notifyChar\<close> are assigned in the last step only; \<open>#disconnectHandler\<close> and
  \<open>#notifyHandler\<close> as soon as the listeners are made.
\<close>

fun service_connect_step ::
  "connect_stage \<Rightarrow> error option \<Rightarrow> World \<Rightarrow> connect_stage progress \<times> World" where
  "service_connect_step stage (Some err) s = (Threw err, s)"
| "service_connect_step RequestingDevice None s =
     (let l = fresh s;
          s1 = s\<lparr>fresh := l + 1, disconnectListeners := disconnectListeners s @ [l],
                 disconnectHandler := Some l\<rparr>
      in if gatt s1 then (Awaiting ConnectingGatt, emit [GattConnect] s1)
         else (Threw (Error (Str ''Failed to open a GATT server.'')), s1))"
| "service_connect_step ConnectingGatt None s =
     (Awaiting GettingService, s\<lparr>serverConnected := True\<rparr>)"
| "service_connect_step GettingService None s = (Awaiting GettingCharacteristic, s)"
| "service_connect_step GettingCharacteristic None s =
     (let l = fresh s
      in (Awaiting StartingNotifications,
          s\<lparr>fresh := l + 1, notifyHandler := Some l,
            valueListeners := valueListeners s @ [l]\<rparr>))"
| "service_connect_step StartingNotifications None s =
     (Returned,
      s\<lparr>device := Some (), server := Some (), writeChar := Some (), notifyChar := Some ()\<rparr>)"

definition toLowerCase :: "string \<Rightarrow> string" where
  "toLowerCase cs =
     map (\<lambda>c. let n = (of_char c :: nat) in if 65 \<le> n \<and> n \<le> 90 then char_of (n + 32) else c) cs"

fun includes_str :: "string \<Rightarrow> string \<Rightarrow> bool" where
  "includes_str [] t = (t = [])"
| "includes_str (c # cs) t = (take (length t) (c # cs) = t \<or> includes_str cs t)"

text \<open>
  \<open>isUserCancelledError\<close>. The messages written in Japanese contain none of the
  markers.
\<close>

definition isUserCancelledError :: "error \<Rightarrow> bool" where
  "isUserCancelledError err =
     (let message = (case error_message err of Str m \<Rightarrow> toLowerCase m | _ \<Rightarrow> []);
          name = toLowerCase (error_name err)
      in includes_str message ''user cancelled'' \<or>
         includes_str message ''user canceled'' \<or>
         includes_str message ''usercancelled'' \<or>
         includes_str message ''usercanceled'' \<or>
         (name = ''notfounderror'' \<and> includes_str message ''cancelled''))"

text \<open>
  \<open>startWriteLoop\<close>. Its two flags are the values in the closure that calls it. The
  accessor \<open>() => commandRef.current\<close> and the handler \<open>showError\<close> are the closures
  number 0.
\<close>

definition startWriteLoop :: "bool \<Rightarrow> bool \<Rightarrow> World \<Rightarrow> World" where
  "startWriteLoop closedConnecting closedDisconnecting s =
     (if closedDisconnecting \<or> closedConnecting then s
      else startCommandLoop 0 0 50 (stopCommandLoop s))"

text \<open>The \<open>catch\<close> of \<open>connect\<close>, with what follows it.\<close>

definition connect_catch :: "error \<Rightarrow> World \<Rightarrow> World" where
  "connect_catch err s =
     (let s1 = emit [ConsoleError err] s
      in if \<not> isUserCancelledError err then
           disconnectDevice True
             ((emit [Alert (error_message err)] s1)\<lparr>isConnected := False\<rparr>)
         else connect_finally s1)"

text \<open>
  \<open>connect\<close> of the application from its first line to \<open>requestDevice\<close>; the two
  flags are the values of \<open>isConnecting\<close> and \<open>isDisconnecting\<close> in the closure.
\<close>

definition connect :: "bool \<Rightarrow> bool \<Rightarrow> World \<Rightarrow> World" where
  "connect closedConnecting closedDisconnecting s =
     (if closedConnecting \<or> closedDisconnecting then s
      else if \<not> bluetooth s then emit [Alert NoWebBluetoothText] s
      else
        let s1 = (stopCommandLoop (s\<lparr>userDisconnectRef := False\<rparr>))\<lparr>isConnecting := True\<rparr>
        in emit [RequestDevice] (s1\<lparr>connects := connects s1 @ [RequestingDevice]\<rparr>))"

text \<open>
  \<open>connect\<close> goes on when the call it waits for settles. It passed its guard, so both
  flags of its closure are false when it reaches \<open>startWriteLoop\<close>.
\<close>

definition connect_resume :: "connect_stage \<Rightarrow> error option \<Rightarrow> World \<Rightarrow> World" where
  "connect_resume stage result s =
     (case service_connect_step stage result s of
        (Awaiting stage', s1) \<Rightarrow> s1\<lparr>connects := connects s1 @ [stage']\<rparr>
      | (Returned, s1) \<Rightarrow>
          connect_finally (startWriteLoop False False (s1\<lparr>isConnected := True\<rparr>))
      | (Threw err, s1) \<Rightarrow> connect_catch err s1)"

definition connectSettles :: "nat \<Rightarrow> error option \<Rightarrow> World \<Rightarrow> World" where
  "connectSettles k result s =
     (if k < length (connects s) then
        connect_resume (connects s ! k) result
          (s\<lparr>connects := take k (connects s) @ drop (Suc k) (connects s)\<rparr>)
      else s)"

subsection \<open>Events\<close>

text \<open>React renders: the closures of the handlers now hold the current state.\<close>

definition render :: "World \<Rightarrow> World" where
  "render s =
     s\<lparr>seenConnecting := isConnecting s, seenDisconnecting := isDisconnecting s,
       seenConnected := isConnected s\<rparr>"

text \<open>
  A click on the button, which is disabled while the last render saw a connect or a
  disconnect in progress. The state set during the handler is rendered before the next
  event.
\<close>

definition click :: "World \<Rightarrow> World" where
  "click s =
     (if seenConnecting s \<or> seenDisconnecting s then s
      else render (if seenConnected s then disconnectDevice False s
                   else connect (seenConnecting s) (seenDisconnecting s) s))"

text \<open>The link drops: the browser closes the connection and fires the event.\<close>

definition linkDrops :: "World \<Rightarrow> World" where
  "linkDrops s = (if serverConnected s then dispatchDisconnected (s\<lparr>serverConnected := False\<rparr>) else s)"

text \<open>A notification arrives: every listener of the characteristic calls \<open>onNotify\<close>.\<close>

definition notification :: "DataView \<Rightarrow> World \<Rightarrow> World" where
  "notification view s = fold (\<lambda>l t. onNotify view t) (valueListeners s) s"

text \<open>
  What can happen next: an event of the page or of the browser, or a direct call of the
  two public methods of the command loop.
\<close>

datatype event =
    Click
  | Render
  | TimerFires nat Command
  | WriteSettles nat "error option"
  | ConnectSettles nat "error option"
  | StopNotificationsSettles nat "error option"
  | LinkDrops
  | Notification DataView
  | StartCommandLoop nat nat nat
  | StopCommandLoop

fun step :: "event \<Rightarrow> World \<Rightarrow> World" where
  "step Click s = click s"
| "step Render s = render s"
| "step (TimerFires i command) s = timerFires i command s"
| "step (WriteSettles k result) s = writeSettles k result s"
| "step (ConnectSettles k result) s = connectSettles k result s"
| "step (StopNotificationsSettles k result) s = stopNotificationsSettles k result s"
| "step LinkDrops s = linkDrops s"
| "step (Notification view) s = notification view s"
| "step (StartCommandLoop getCommand onError intervalMs) s =
     startCommandLoop getCommand onError intervalMs s"
| "step StopCommandLoop s = stopCommandLoop s"

definition run :: "event list \<Rightarrow> World \<Rightarrow> World" where
  "run evs s = fold step evs s"

subsection \<open>Invariants and example runs\<close>

text \<open>
  The browser holds exactly the interval whose id the service stores: none when
  \<open>#writeLoopId\<close> is \<open>null\<close>.
\<close>

definition timers_ok :: "World \<Rightarrow> bool" where
  "timers_ok s =
     (map fst (intervals s) = (case writeLoopId s of None \<Rightarrow> [] | Some i \<Rightarrow> [i]))"

text \<open>No interval is active and none is stored.\<close>

definition loop_stopped :: "World \<Rightarrow> bool" where
  "loop_stopped s = (writeLoopId s = None \<and> intervals s = [])"

text \<open>
  The events that can call \<open>startCommandLoop\<close>: the direct call, and a step of
  \<open>connect\<close>, which ends in \<open>startWriteLoop\<close>.
\<close>

fun starts_loop :: "event \<Rightarrow> bool" where
  "starts_loop (StartCommandLoop getCommand onError intervalMs) = True"
| "starts_loop (ConnectSettles k result) = True"
| "starts_loop _ = False"

text \<open>
  What holds of the application in every state it reaches: at most one call of
  \<open>connect\<close> or \<open>disconnectDevice\<close> is waiting for the browser; while one waits, the
  flag that stands for it is set, and the last render saw it set when the call came from a
  click; and a connected state the last render did not see is hidden behind a disabled
  button.
\<close>

definition app_inv :: "World \<Rightarrow> bool" where
  "app_inv s =
     (length (connects s) + length (disconnects s) \<le> 1 \<and>
      (connects s \<noteq> [] \<longrightarrow> isConnecting s \<and> seenConnecting s \<and> \<not> isConnected s) \<and>
      (True \<in> set (disconnects s) \<longrightarrow> isConnecting s \<and> seenConnecting s) \<and>
      (False \<in> set (disconnects s) \<longrightarrow> isDisconnecting s \<and> seenDisconnecting s) \<and>
      (isConnected s \<and> \<not> seenConnected s \<longrightarrow> seenConnecting s \<or> seenDisconnecting s))"

text \<open>
  At most one write is waiting, and the busy flag is set while it waits.
\<close>

definition single_flight :: "World \<Rightarrow> bool" where
  "single_flight s = (writes s = [] \<or> (length (writes s) = 1 \<and> writeBusy s))"

text \<open>
  The events during which nothing outside the loop calls \<open>stopCommandLoop\<close>: the
  loop's own events, renders, notifications, and calls of \<open>startCommandLoop\<close>.
\<close>

fun keeps_loop :: "event \<Rightarrow> bool" where
  "keeps_loop (TimerFires i command) = True"
| "keeps_loop (WriteSettles k result) = True"
| "keeps_loop (StartCommandLoop getCommand onError intervalMs) = True"
| "keeps_loop Render = True"
| "keeps_loop (Notification view) = True"
| "keeps_loop _ = False"

text \<open>
  A command at rest, and the events of a connection that succeeds: the click, the device
  chosen, the server connected, the service and the characteristic found, the
  notifications started. The listeners are the closures 1 and 2, the interval is 3.
\<close>

definition zero_command :: Command where
  "zero_command = \<lparr>vx = Finite 0, vy = Finite 0, w = Finite 0\<rparr>"

definition connected_trace :: "event list" where
  "connected_trace =
     [Click, ConnectSettles 0 None, ConnectSettles 0 None, ConnectSettles 0 None,
      ConnectSettles 0 None, ConnectSettles 0 None]"

section \<open>The binary32 conversion\<close>

lemma find_upto:
  "a \<le> k \<Longrightarrow> k \<le> b \<Longrightarrow> P k \<Longrightarrow> (\<And>j. a \<le> j \<Longrightarrow> j < k \<Longrightarrow> \<not> P j) \<Longrightarrow> find P [a..b] = Some k"
proof (induction "nat (k - a)" arbitrary: a)
  case 0
  then have "a = k" by simp
  with 0 show ?case by (simp add: upto_rec1)
next
  case (Suc n)
  then have lt: "a < k" by linarith
  have "find P [a + 1..b] = Some k"
    using Suc.hyps(2) Suc.prems lt by (intro Suc.hyps(1)) auto
  moreover have "\<not> P a" using Suc.prems lt by simp
  moreover have "[a..b] = a # [a + 1..b]" using lt Suc.prems by (simp add: upto_rec1)
  ultimately show ?case by simp
qed

lemma float32_exponent_normal:
  assumes "- 126 \<le> k" "k \<le> 127" "2 powi k \<le> a" "a < 2 powi (k + 1)"
  shows "float32_exponent a = k"
proof -
  have "\<not> a < 2 powi (j + 1)" if "j < k" for j
  proof -
    have "(2::rat) powi (j + 1) \<le> 2 powi k"
      using that by (intro power_int_increasing) auto
    with assms(3) show ?thesis by simp
  qed
  then have "find (\<lambda>E. a < 2 powi (E + 1)) [- 126..127] = Some k"
    using assms by (intro find_upto) auto
  then show ?thesis by (simp add: float32_exponent_def)
qed

lemma float32_exponent_subnormal:
  assumes "a < 2 powi (- 126)"
  shows "float32_exponent a = - 126"
proof -
  have "(2::rat) powi (- 126) \<le> 2 powi (- 126 + 1)"
    by (intro power_int_increasing) auto
  with assms have "a < 2 powi (- 126 + 1)" by simp
  then have "find (\<lambda>E. a < 2 powi (E + 1)) [- 126..127] = Some (- 126)"
    by (intro find_upto) auto
  then show ?thesis by (simp add: float32_exponent_def)
qed

lemma roundTiesToEven_of_int: "roundTiesToEven (of_int n) = n"
  by (simp add: roundTiesToEven_def)

lemma float32_magnitude_normal:
  assumes "1 \<le> e" "e \<le> 254" "f < 2 ^ 23"
  shows "float32_magnitude (of_nat (2 ^ 23 + f) * 2 powi (int e - 150)) = int e * 2 ^ 23 + int f"
proof -
  let ?a = "of_nat (2 ^ 23 + f) * 2 powi (int e - 150) :: rat"
  have p1: "(2::rat) powi (int e - 127) = 2 ^ 23 * 2 powi (int e - 150)"
    using power_int_add [of "2::rat" 23 "int e - 150"] by simp
  have p2: "(2::rat) powi (int e - 127 + 1) = 2 ^ 24 * 2 powi (int e - 150)"
    using power_int_add [of "2::rat" 24 "int e - 150"] by simp
  have pos: "(0::rat) < 2 powi (int e - 150)" by simp
  have "(2::rat) ^ 23 \<le> of_nat (2 ^ 23 + f)" by simp
  then have lo: "2 powi (int e - 127) \<le> ?a"
    unfolding p1 using pos by (intro mult_right_mono) auto
  have "(of_nat (2 ^ 23 + f) :: rat) < of_nat (2 ^ 24)"
    using assms(3) by (subst of_nat_less_iff) simp
  then have "(of_nat (2 ^ 23 + f) :: rat) < 2 ^ 24" by simp
  then have hi: "?a < 2 powi (int e - 127 + 1)"
    unfolding p2 using pos by (intro mult_strict_right_mono) auto
  have E: "float32_exponent ?a = int e - 127"
    using assms lo hi by (intro float32_exponent_normal) auto
  have "?a / 2 powi (int e - 127 - 23) = of_int (int (2 ^ 23 + f))"
    by simp
  then have M: "roundTiesToEven (?a / 2 powi (int e - 127 - 23)) = int (2 ^ 23 + f)"
    by (simp only: roundTiesToEven_of_int)
  have "(int e - 127 + 126) * 2 ^ 23 + int (2 ^ 23 + f) = int e * 2 ^ 23 + int f"
    by (simp add: algebra_simps)
  moreover have "int e * 2 ^ 23 + int f \<le> 255 * 2 ^ 23"
    using assms by simp
  ultimately show ?thesis
    unfolding float32_magnitude_def E Let_def M by simp
qed

lemma float32_magnitude_subnormal:
  assumes "f < 2 ^ 23"
  shows "float32_magnitude (of_nat f * 2 powi (- 149)) = int f"
proof -
  let ?a = "of_nat f * 2 powi (- 149) :: rat"
  have p: "(2::rat) powi (- 126) = 2 ^ 23 * 2 powi (- 149)"
    using power_int_add [of "2::rat" 23 "- 149"] by simp
  have "(of_nat f :: rat) < of_nat (2 ^ 23)"
    using assms by (subst of_nat_less_iff) simp
  then have "(of_nat f :: rat) < 2 ^ 23" by simp
  then have "?a < 2 powi (- 126)"
    unfolding p by (intro mult_strict_right_mono) auto
  then have E: "float32_exponent ?a = - 126"
    by (rule float32_exponent_subnormal)
  have "?a / 2 powi (- 126 - 23) = of_int (int f)"
    by simp
  then have M: "roundTiesToEven (?a / 2 powi (- 126 - 23)) = int f"
    by (simp only: roundTiesToEven_of_int)
  have "int f \<le> 255 * 2 ^ 23" using assms by simp
  then show ?thesis
    unfolding float32_magnitude_def E Let_def M by simp
qed

lemma exponent_field_nat: "exponent_field v = (unat v div 2 ^ 23) mod 2 ^ 8"
  by (simp add: exponent_field_def take_bit_eq_mod drop_bit_eq_div unat_mod_distrib unat_div_distrib)

lemma fraction_field_nat: "fraction_field v = unat v mod 2 ^ 23"
  by (simp add: fraction_field_def take_bit_eq_mod unat_mod_distrib)

lemma split_fields:
  fixes n B :: nat
  assumes "0 < B" "n < 512 * B"
  shows "n = (if 256 * B \<le> n then 256 * B else 0) + (n div B mod 256) * B + n mod B"
    and "odd (n div (256 * B)) = (256 * B \<le> n)"
proof -
  define q where "q = n div B"
  have q: "q < 512"
    unfolding q_def using assms(2) by (rule less_mult_imp_div_less)
  have n: "n = q * B + n mod B" by (simp add: q_def)
  have le: "(256 * B \<le> n) = (256 \<le> q)"
    unfolding q_def by (rule less_eq_div_iff_mult_less_eq [OF assms(1), symmetric])
  have d: "q div 256 = (if 256 \<le> q then 1 else 0)"
  proof (cases "256 \<le> q")
    case True
    then have "q div 256 = 1"
      using q by (intro div_nat_eqI) simp_all
    with True show ?thesis by simp
  next
    case False
    then show ?thesis by simp
  qed
  have "q = q div 256 * 256 + q mod 256" by simp
  then have qq: "q = (if 256 \<le> q then 256 else 0) + q mod 256"
    unfolding d by (simp split: if_splits)
  have "q * B = ((if 256 \<le> q then 256 else 0) + q mod 256) * B"
    using qq by simp
  then have "q * B = (if 256 \<le> q then 256 * B else 0) + (q mod 256) * B"
    by (simp add: add_mult_distrib)
  with n le show "n = (if 256 * B \<le> n then 256 * B else 0) + (n div B mod 256) * B + n mod B"
    by (simp flip: q_def)
  have "n div (256 * B) = q div 256"
    by (simp add: q_def div_mult2_eq mult.commute)
  moreover have "odd (q div 256) = (256 \<le> q)"
    unfolding d by simp
  ultimately show "odd (n div (256 * B)) = (256 * B \<le> n)"
    using le by simp
qed

lemma sign_bit_nat: "sign_bit v = (2 ^ 31 \<le> unat v)"
proof -
  have "unat v < 2 ^ 32" using unsigned_less [of v] by simp
  then have "odd (unat v div (256 * 2 ^ 23)) = (256 * 2 ^ 23 \<le> unat v)"
    by (intro split_fields(2)) simp_all
  moreover have "bit (unat v) 31 = bit v 31"
    by (simp add: bit_unsigned_iff)
  then have "sign_bit v = odd (unat v div 2 ^ 31)"
    by (simp only: sign_bit_def bit_iff_odd)
  ultimately show ?thesis by simp
qed

lemma float32_fields:
  "v = (if sign_bit v then 0x80000000 else 0) +
       word_of_int (int (exponent_field v) * 2 ^ 23 + int (fraction_field v))"
proof -
  define n where "n = unat v"
  have "n < 2 ^ 32" using unsigned_less [of v] by (simp add: n_def)
  then have "n = (if 256 * 2 ^ 23 \<le> n then 256 * 2 ^ 23 else 0) +
      (n div 2 ^ 23 mod 256) * 2 ^ 23 + n mod 2 ^ 23"
    by (intro split_fields(1)) simp_all
  then have "(of_nat n :: float32) =
      of_nat ((if 256 * 2 ^ 23 \<le> n then 256 * 2 ^ 23 else 0) +
        (n div 2 ^ 23 mod 256) * 2 ^ 23 + n mod 2 ^ 23)"
    by (rule arg_cong)
  also have "\<dots> = (if 2 ^ 31 \<le> n then 0x80000000 else 0) +
      word_of_int (int (n div 2 ^ 23 mod 2 ^ 8) * 2 ^ 23 + int (n mod 2 ^ 23))"
    by simp
  finally have "of_nat n = (if 2 ^ 31 \<le> n then 0x80000000 else 0) +
      (word_of_int (int (n div 2 ^ 23 mod 2 ^ 8) * 2 ^ 23 + int (n mod 2 ^ 23)) :: float32)" .
  moreover have "of_nat n = v" by (simp add: n_def)
  ultimately have "v = (if 2 ^ 31 \<le> n then 0x80000000 else 0) +
      word_of_int (int (n div 2 ^ 23 mod 2 ^ 8) * 2 ^ 23 + int (n mod 2 ^ 23))"
    by (rule box_equals [OF _ _ refl])
  then show ?thesis
    unfolding exponent_field_nat fraction_field_nat sign_bit_nat n_def .
qed

lemma fraction_field_less: "fraction_field v < 2 ^ 23"
  by (simp add: fraction_field_nat)

lemma exponent_field_less: "exponent_field v < 2 ^ 8"
  by (simp add: exponent_field_nat)

lemma toFloat32_signed:
  assumes "0 < a"
  shows "toFloat32 (Finite ((if s then - 1 else 1) * a)) =
         (if s then 0x80000000 else 0) + word_of_int (float32_magnitude a)"
  using assms by (cases s) simp_all

lemma toFloat32_fromFloat32:
  assumes "exponent_field v = 255 \<longrightarrow> fraction_field v = 0"
  shows "toFloat32 (fromFloat32 v) = v"
proof -
  define e f s where "e = exponent_field v" and "f = fraction_field v" and "s = sign_bit v"
  have f: "f < 2 ^ 23" and e: "e < 2 ^ 8"
    using fraction_field_less [of v] exponent_field_less [of v] by (simp_all add: e_def f_def)
  have v: "(if s then 0x80000000 else 0) + word_of_int (int e * 2 ^ 23 + int f) = v"
    unfolding e_def f_def s_def by (rule float32_fields [symmetric])
  have F: "fromFloat32 v =
     (if e = 255 then (if f = 0 then (if s then NegInfinity else PosInfinity) else NaN)
      else if e = 0 \<and> f = 0 then (if s then NegZero else Finite 0)
      else Finite ((if s then - 1 else 1) *
             (if e = 0 then of_nat f * 2 powi (- 149)
              else of_nat (2 ^ 23 + f) * 2 powi (int e - 150))))"
    by (simp add: fromFloat32_def Let_def e_def f_def s_def)
  have e255: "e = 255 \<Longrightarrow> f = 0"
    using assms by (simp add: e_def f_def)
  consider "e = 255" "f = 0" | "e = 0" "f = 0" | "e = 0" "0 < f" | "1 \<le> e" "e \<le> 254"
    using e255 e by fastforce
  then have "toFloat32 (fromFloat32 v) =
     (if s then 0x80000000 else 0) + word_of_int (int e * 2 ^ 23 + int f)"
  proof cases
    case 1
    then show ?thesis by (simp add: F)
  next
    case 2
    then show ?thesis by (simp add: F)
  next
    case 3
    let ?a = "of_nat f * 2 powi (- 149) :: rat"
    have pos: "0 < ?a" using 3 by (intro mult_pos_pos) simp_all
    have m: "float32_magnitude ?a = int f"
      using f by (rule float32_magnitude_subnormal)
    have "fromFloat32 v = Finite ((if s then - 1 else 1) * ?a)"
      using 3 by (simp add: F)
    then have "toFloat32 (fromFloat32 v) = (if s then 0x80000000 else 0) + word_of_int (int f)"
      by (simp only: toFloat32_signed [OF pos] m)
    then show ?thesis using 3 by simp
  next
    case 4
    let ?a = "of_nat (2 ^ 23 + f) * 2 powi (int e - 150) :: rat"
    have pos: "0 < ?a" by (intro mult_pos_pos) simp_all
    have m: "float32_magnitude ?a = int e * 2 ^ 23 + int f"
      using 4 f by (intro float32_magnitude_normal)
    have "fromFloat32 v = Finite ((if s then - 1 else 1) * ?a)"
      using 4 by (simp add: F)
    then show ?thesis
      by (simp only: toFloat32_signed [OF pos] m)
  qed
  also note v
  finally show ?thesis .
qed

section \<open>The codec\<close>

lemma toFloat32_three_halves: "toFloat32 (Finite (3 / 2)) = 0x3FC00000"
proof -
  have "float32_magnitude (of_nat (2 ^ 23 + 4194304) * 2 powi (int 127 - 150)) =
        int 127 * 2 ^ 23 + int 4194304"
    by (rule float32_magnitude_normal) simp_all
  moreover have "(of_nat (2 ^ 23 + 4194304) * 2 powi (int 127 - 150) :: rat) = 3 / 2"
    by (simp add: power_int_minus_divide)
  ultimately have "float32_magnitude (3 / 2) = 1069547520" by simp
  then show ?thesis by simp
qed

lemma toFloat32_minus_nine_quarters: "toFloat32 (Finite (- (9 / 4))) = 0xC0100000"
proof -
  have "float32_magnitude (of_nat (2 ^ 23 + 1048576) * 2 powi (int 128 - 150)) =
        int 128 * 2 ^ 23 + int 1048576"
    by (rule float32_magnitude_normal) simp_all
  moreover have "(of_nat (2 ^ 23 + 1048576) * 2 powi (int 128 - 150) :: rat) = 9 / 4"
    by (simp add: power_int_minus_divide)
  ultimately have "float32_magnitude (9 / 4) = 1074790400" by simp
  then show ?thesis by simp
qed

lemma toFloat32_zero: "toFloat32 (Finite 0) = 0"
  by simp

lemma length_float32_bytes: "length (float32_bytes v le) = 4"
  by (simp add: float32_bytes_def Let_def)

lemma encodeCommand_bytes:
  "encodeCommand c =
     Inr (float32_bytes (toFloat32 (vx c)) True @ float32_bytes (toFloat32 (vy c)) True @
          float32_bytes (toFloat32 (w c)) True)"
  by (simp add: encodeCommand_def setFloat32_def length_float32_bytes)

text \<open>
  Claim C3. For every command \<open>encodeCommand\<close> returns, without failing, a buffer of
  exactly 12 bytes that holds the binary32 values of \<open>vx\<close>, \<open>vy\<close> and \<open>w\<close>,
  little-endian, at the offsets 0, 4 and 8; NaN and the infinities are numbers like the
  others. The command \<open>{vx: 1.5, vy: -2.25, w: 0}\<close> gives the bytes
  \<open>00 00 C0 3F 00 00 10 C0 00 00 00 00\<close>.
\<close>

theorem encodeCommand_layout:
  "(\<exists>buf. encodeCommand c = Inr buf \<and> length buf = 12 \<and>
      take 4 buf = float32_bytes (toFloat32 (vx c)) True \<and>
      take 4 (drop 4 buf) = float32_bytes (toFloat32 (vy c)) True \<and>
      drop 8 buf = float32_bytes (toFloat32 (w c)) True) \<and>
   encodeCommand \<lparr>vx = Finite (3 / 2), vy = Finite (- 9 / 4), w = Finite 0\<rparr> =
     Inr [0x00, 0x00, 0xC0, 0x3F, 0x00, 0x00, 0x10, 0xC0, 0x00, 0x00, 0x00, 0x00]"
proof -
  have "encodeCommand \<lparr>vx = Finite (3 / 2), vy = Finite (- 9 / 4), w = Finite 0\<rparr> =
     Inr [0x00, 0x00, 0xC0, 0x3F, 0x00, 0x00, 0x10, 0xC0, 0x00, 0x00, 0x00, 0x00]"
    unfolding encodeCommand_bytes
    by (simp add: toFloat32_three_halves toFloat32_minus_nine_quarters toFloat32_zero
          float32_bytes_def del: toFloat32.simps)
  then show ?thesis
    by (simp add: encodeCommand_bytes length_float32_bytes)
qed

lemma bytes_float32_bytes: "bytes_float32 (float32_bytes v True) True = v"
proof -
  have "ucast (ucast v :: byte) OR push_bit 8 (ucast (ucast (drop_bit 8 v) :: byte)) OR
        push_bit 16 (ucast (ucast (drop_bit 16 v) :: byte)) OR
        push_bit 24 (ucast (ucast (drop_bit 24 v) :: byte)) = v" (is "?l = v")
  proof (rule bit_word_eqI)
    fix n assume n: "n < LENGTH(32)"
    then consider "n < 8" | "8 \<le> n" "n < 16" | "16 \<le> n" "n < 24" | "24 \<le> n" "n < 32"
      by fastforce
    then show "bit ?l n = bit v n"
      by cases (auto simp: bit_simps)
  qed
  then show ?thesis
    by (simp add: bytes_float32_def float32_bytes_def)
qed

lemma decodeOdometry_short: "length view < 12 \<Longrightarrow> decodeOdometry view = Inl payload_too_short"
  by (simp add: decodeOdometry_def)

lemma decodeOdometry_long:
  "12 \<le> length view \<Longrightarrow>
   decodeOdometry view =
     Inr \<lparr>x = fromFloat32 (bytes_float32 (take 4 view) True),
          y = fromFloat32 (bytes_float32 (take 4 (drop 4 view)) True),
          yaw = fromFloat32 (bytes_float32 (take 4 (drop 8 view)) True)\<rparr>"
  by (simp add: decodeOdometry_def getFloat32_def)

lemma decode_encode:
  "encodeCommand c = Inr buf \<Longrightarrow>
   decodeOdometry buf =
     Inr \<lparr>x = fromFloat32 (toFloat32 (vx c)), y = fromFloat32 (toFloat32 (vy c)),
          yaw = fromFloat32 (toFloat32 (w c))\<rparr>"
  by (auto simp: encodeCommand_bytes decodeOdometry_long length_float32_bytes bytes_float32_bytes)

text \<open>
  Claim C2. For finite binary32 values \<open>a\<close>, \<open>b\<close>, \<open>c\<close>, decoding the 12 bytes that
  \<open>encodeCommand\<close> produces for the command \<open>{vx: a, vy: b, w: c}\<close> gives the
  odometry with \<open>x = a\<close>, \<open>y = b\<close>, \<open>yaw = c\<close>, exactly.
\<close>

theorem decode_encode_roundtrip:
  assumes "is_finite32 a" "is_finite32 b" "is_finite32 c"
  shows "\<exists>buf. encodeCommand \<lparr>vx = fromFloat32 a, vy = fromFloat32 b, w = fromFloat32 c\<rparr> = Inr buf \<and>
           length buf = 12 \<and>
           decodeOdometry buf = Inr \<lparr>x = fromFloat32 a, y = fromFloat32 b, yaw = fromFloat32 c\<rparr>"
proof -
  have "toFloat32 (fromFloat32 a) = a" "toFloat32 (fromFloat32 b) = b"
       "toFloat32 (fromFloat32 c) = c"
    using assms by (simp_all add: is_finite32_def toFloat32_fromFloat32)
  then show ?thesis
    using decode_encode [of "\<lparr>vx = fromFloat32 a, vy = fromFloat32 b, w = fromFloat32 c\<rparr>"]
    by (simp add: encodeCommand_bytes length_float32_bytes)
qed

lemma fromFloat32_three_halves: "fromFloat32 0x3FC00000 = Finite (3 / 2)"
  by (simp add: fromFloat32_def exponent_field_nat fraction_field_nat sign_bit_nat power_int_minus_divide)

lemma fromFloat32_minus_nine_quarters: "fromFloat32 0xC0100000 = Finite (- 9 / 4)"
  by (simp add: fromFloat32_def exponent_field_nat fraction_field_nat sign_bit_nat power_int_minus_divide)

lemma fromFloat32_zero: "fromFloat32 0 = Finite 0"
  by (simp add: fromFloat32_def exponent_field_nat fraction_field_nat sign_bit_nat)

theorem decode_encode_roundtrip_witness:
  "is_finite32 0x3FC00000 \<and> is_finite32 0xC0100000 \<and> is_finite32 0 \<and>
   (\<exists>buf. encodeCommand \<lparr>vx = Finite (3 / 2), vy = Finite (- 9 / 4), w = Finite 0\<rparr> = Inr buf \<and>
      length buf = 12 \<and>
      decodeOdometry buf = Inr \<lparr>x = Finite (3 / 2), y = Finite (- 9 / 4), yaw = Finite 0\<rparr>)"
proof -
  have fin: "is_finite32 0x3FC00000" "is_finite32 0xC0100000" "is_finite32 0"
    by (simp_all add: is_finite32_def exponent_field_nat)
  show ?thesis
    using fin decode_encode_roundtrip [OF fin]
    by (simp only: fromFloat32_three_halves fromFloat32_minus_nine_quarters fromFloat32_zero
          simp_thms)
qed

text \<open>
  Claim C4. \<open>decodeOdometry\<close> fails exactly when the buffer has fewer than 12 bytes,
  with the error that says so, which the notification handler catches and reports; on 12
  bytes or more it returns the three little-endian binary32 values at the offsets 0, 4 and
  8, whatever follows them.
\<close>

theorem decodeOdometry_length:
  "((\<exists>err. decodeOdometry view = Inl err) \<longleftrightarrow> length view < 12) \<and>
   (length view < 12 \<longrightarrow>
      decodeOdometry view = Inl payload_too_short \<and>
      onNotify view s = emit [Alert (Str ''Notification payload shorter than 12 bytes.'')] s) \<and>
   (12 \<le> length view \<longrightarrow>
      decodeOdometry view =
        Inr \<lparr>x = fromFloat32 (bytes_float32 (take 4 view) True),
             y = fromFloat32 (bytes_float32 (take 4 (drop 4 view)) True),
             yaw = fromFloat32 (bytes_float32 (take 4 (drop 8 view)) True)\<rparr> \<and>
      decodeOdometry (view @ extra) = decodeOdometry view)"
proof (cases "length view < 12")
  case True
  then show ?thesis
    by (simp add: decodeOdometry_short onNotify_def payload_too_short_def)
next
  case False
  then have long: "12 \<le> length view" by simp
  then have "12 \<le> length (view @ extra)" by simp
  then show ?thesis
    using long False by (simp add: decodeOdometry_long)
qed

theorem decodeOdometry_length_witness:
  "decodeOdometry [1, 2, 3] = Inl payload_too_short \<and>
   decodeOdometry ([0, 0, 0xC0, 0x3F, 0, 0, 0x10, 0xC0, 0, 0, 0, 0] @ [7, 7]) =
     decodeOdometry [0, 0, 0xC0, 0x3F, 0, 0, 0x10, 0xC0, 0, 0, 0, 0] \<and>
   decodeOdometry [0, 0, 0xC0, 0x3F, 0, 0, 0x10, 0xC0, 0, 0, 0, 0] =
     Inr \<lparr>x = Finite (3 / 2), y = Finite (- 9 / 4), yaw = Finite 0\<rparr>"
proof -
  have bytes: "bytes_float32 [0, 0, 0xC0, 0x3F] True = 0x3FC00000"
    "bytes_float32 [0, 0, 0x10, 0xC0] True = 0xC0100000"
    "bytes_float32 [0, 0, 0, 0] True = 0"
    by (simp_all add: bytes_float32_def)
  show ?thesis
    using decodeOdometry_length [of "[1, 2, 3]" "initial True True True"]
      decodeOdometry_length [of "[0, 0, 0xC0, 0x3F, 0, 0, 0x10, 0xC0, 0, 0, 0, 0]"
        "initial True True True" "[7, 7]"]
    by (simp add: bytes fromFloat32_three_halves fromFloat32_minus_nine_quarters
          fromFloat32_zero)
qed

section \<open>The command loop\<close>

subsection \<open>At most one interval\<close>

lemma timers_ok_update [simp]:
  "timers_ok (device_update f0 s) = timers_ok s"
  "timers_ok (server_update f1 s) = timers_ok s"
  "timers_ok (writeChar_update f2 s) = timers_ok s"
  "timers_ok (notifyChar_update f3 s) = timers_ok s"
  "timers_ok (notifyHandler_update f4 s) = timers_ok s"
  "timers_ok (disconnectHandler_update f5 s) = timers_ok s"
  "timers_ok (writeBusy_update f7 s) = timers_ok s"
  "timers_ok (isConnecting_update f8 s) = timers_ok s"
  "timers_ok (isDisconnecting_update f9 s) = timers_ok s"
  "timers_ok (isConnected_update f10 s) = timers_ok s"
  "timers_ok (seenConnecting_update f11 s) = timers_ok s"
  "timers_ok (seenDisconnecting_update f12 s) = timers_ok s"
  "timers_ok (seenConnected_update f13 s) = timers_ok s"
  "timers_ok (userDisconnectRef_update f14 s) = timers_ok s"
  "timers_ok (bluetooth_update f15 s) = timers_ok s"
  "timers_ok (gatt_update f16 s) = timers_ok s"
  "timers_ok (withoutResponse_update f17 s) = timers_ok s"
  "timers_ok (serverConnected_update f18 s) = timers_ok s"
  "timers_ok (disconnectListeners_update f19 s) = timers_ok s"
  "timers_ok (valueListeners_update f20 s) = timers_ok s"
  "timers_ok (fresh_update f22 s) = timers_ok s"
  "timers_ok (writes_update f23 s) = timers_ok s"
  "timers_ok (connects_update f24 s) = timers_ok s"
  "timers_ok (disconnects_update f25 s) = timers_ok s"
  "timers_ok (effects_update f26 s) = timers_ok s"
  by (simp_all add: timers_ok_def)

lemma timers_ok_emit [simp]: "timers_ok (emit es s) = timers_ok s"
  by (simp add: emit_def)

lemma stopCommandLoop_cleared [simp]:
  "writeLoopId (stopCommandLoop s) = None" "writeBusy (stopCommandLoop s) = False"
  by (simp_all add: stopCommandLoop_def emit_def split: option.splits)

lemma filter_fst_single:
  "map fst ts = [i] \<Longrightarrow> filter (\<lambda>t. fst t \<noteq> i) ts = []"
  by (cases ts) auto

lemma stopCommandLoop_intervals:
  "timers_ok s \<Longrightarrow> intervals (stopCommandLoop s) = []"
  by (auto simp: timers_ok_def stopCommandLoop_def emit_def filter_fst_single split: option.splits)

lemma timers_ok_stop [simp]: "timers_ok s \<Longrightarrow> timers_ok (stopCommandLoop s)"
  using stopCommandLoop_intervals [of s] by (simp add: timers_ok_def)

lemma timers_ok_start [simp]: "timers_ok s \<Longrightarrow> timers_ok (startCommandLoop g e ms s)"
  by (auto simp: timers_ok_def startCommandLoop_def emit_def Let_def)

lemma timers_ok_tick_failed [simp]: "timers_ok s \<Longrightarrow> timers_ok (tick_failed e err s)"
  by (simp add: tick_failed_def)

lemma timers_ok_tick [simp]: "timers_ok s \<Longrightarrow> timers_ok (tick i g e c s)"
  by (auto simp: tick_def Let_def writeCommand_def split: sum.splits option.splits)

lemma timers_ok_timerFires [simp]: "timers_ok s \<Longrightarrow> timers_ok (timerFires i c s)"
  by (auto simp: timerFires_def split: option.splits)

lemma timers_ok_writeSettles [simp]: "timers_ok s \<Longrightarrow> timers_ok (writeSettles k r s)"
  by (auto simp: writeSettles_def Let_def tick_finally_def split: option.splits)

lemma timers_ok_handleDisconnected [simp]:
  "timers_ok s \<Longrightarrow> timers_ok (handleDisconnected s)"
  by (simp add: handleDisconnected_def Let_def)

lemma timers_ok_fold_handle:
  "timers_ok s \<Longrightarrow>
   timers_ok (fold (\<lambda>l t. handleDisconnected (emit [OnDisconnect] t)) ls s)"
  by (induction ls arbitrary: s) simp_all

lemma timers_ok_dispatch [simp]: "timers_ok s \<Longrightarrow> timers_ok (dispatchDisconnected s)"
  by (simp add: dispatchDisconnected_def timers_ok_fold_handle)

lemma timers_ok_gattDisconnect [simp]: "timers_ok s \<Longrightarrow> timers_ok (gattDisconnect s)"
  by (simp add: gattDisconnect_def)

lemma timers_ok_service_disconnect_rest [simp]:
  "timers_ok s \<Longrightarrow> timers_ok (service_disconnect_rest s)"
  by (auto simp: service_disconnect_rest_def Let_def split: option.splits)

lemma timers_ok_disconnect_done [simp]: "timers_ok s \<Longrightarrow> timers_ok (disconnect_done f s)"
  by (simp add: disconnect_done_def disconnectDevice_rest_def connect_finally_def Let_def)

lemma timers_ok_service_disconnect [simp]:
  "timers_ok s \<Longrightarrow> timers_ok (service_disconnect f s)"
  by (auto simp: service_disconnect_def split: option.splits)

lemma timers_ok_disconnectDevice [simp]:
  "timers_ok s \<Longrightarrow> timers_ok (disconnectDevice f s)"
  by (simp add: disconnectDevice_def)

lemma timers_ok_stopNotificationsSettles [simp]:
  "timers_ok s \<Longrightarrow> timers_ok (stopNotificationsSettles k r s)"
  by (auto simp: stopNotificationsSettles_def Let_def split: option.splits)

lemma timers_ok_service_connect_step [simp]:
  "timers_ok s \<Longrightarrow> timers_ok (snd (service_connect_step stage r s))"
  by (cases stage; cases r) (simp_all add: Let_def)

lemma timers_ok_connect_catch [simp]: "timers_ok s \<Longrightarrow> timers_ok (connect_catch err s)"
  by (simp add: connect_catch_def Let_def connect_finally_def)

lemma timers_ok_connect [simp]: "timers_ok s \<Longrightarrow> timers_ok (connect cc cd s)"
  by (simp add: connect_def Let_def)

lemma timers_ok_connect_resume [simp]:
  "timers_ok s \<Longrightarrow> timers_ok (connect_resume stage r s)"
proof -
  assume ok: "timers_ok s"
  obtain p s1 where step: "service_connect_step stage r s = (p, s1)" by force
  with timers_ok_service_connect_step [OF ok, of stage r] have "timers_ok s1" by simp
  then show ?thesis
    by (simp add: connect_resume_def step connect_finally_def startWriteLoop_def
             split: progress.splits)
qed

lemma timers_ok_connectSettles [simp]:
  "timers_ok s \<Longrightarrow> timers_ok (connectSettles k r s)"
  by (simp add: connectSettles_def)

lemma timers_ok_render [simp]: "timers_ok (render s) = timers_ok s"
  by (simp add: render_def)

lemma timers_ok_click [simp]: "timers_ok s \<Longrightarrow> timers_ok (click s)"
  by (simp add: click_def)

lemma timers_ok_linkDrops [simp]: "timers_ok s \<Longrightarrow> timers_ok (linkDrops s)"
  by (simp add: linkDrops_def)

lemma timers_ok_notification [simp]: "timers_ok s \<Longrightarrow> timers_ok (notification view s)"
proof -
  have "timers_ok (onNotify view t) = timers_ok t" for t
    by (simp add: onNotify_def split: sum.splits)
  then have "timers_ok t \<Longrightarrow> timers_ok (fold (\<lambda>l t. onNotify view t) ls t)" for ls t
    by (induction ls arbitrary: t) simp_all
  then show "timers_ok s \<Longrightarrow> timers_ok (notification view s)"
    by (simp add: notification_def)
qed

lemma timers_ok_step: "timers_ok s \<Longrightarrow> timers_ok (step ev s)"
  by (cases ev) simp_all

lemma timers_ok_initial: "timers_ok (initial a b c)"
  by (simp add: timers_ok_def initial_def)

lemma timers_ok_run: "timers_ok s \<Longrightarrow> timers_ok (run evs s)"
  unfolding run_def by (induction evs arbitrary: s) (simp_all add: timers_ok_step)

subsection \<open>A stopped loop stays stopped\<close>

lemma loop_stopped_update [simp]:
  "loop_stopped (device_update f0 s) = loop_stopped s"
  "loop_stopped (server_update f1 s) = loop_stopped s"
  "loop_stopped (writeChar_update f2 s) = loop_stopped s"
  "loop_stopped (notifyChar_update f3 s) = loop_stopped s"
  "loop_stopped (notifyHandler_update f4 s) = loop_stopped s"
  "loop_stopped (disconnectHandler_update f5 s) = loop_stopped s"
  "loop_stopped (writeBusy_update f7 s) = loop_stopped s"
  "loop_stopped (isConnecting_update f8 s) = loop_stopped s"
  "loop_stopped (isDisconnecting_update f9 s) = loop_stopped s"
  "loop_stopped (isConnected_update f10 s) = loop_stopped s"
  "loop_stopped (seenConnecting_update f11 s) = loop_stopped s"
  "loop_stopped (seenDisconnecting_update f12 s) = loop_stopped s"
  "loop_stopped (seenConnected_update f13 s) = loop_stopped s"
  "loop_stopped (userDisconnectRef_update f14 s) = loop_stopped s"
  "loop_stopped (bluetooth_update f15 s) = loop_stopped s"
  "loop_stopped (gatt_update f16 s) = loop_stopped s"
  "loop_stopped (withoutResponse_update f17 s) = loop_stopped s"
  "loop_stopped (serverConnected_update f18 s) = loop_stopped s"
  "loop_stopped (disconnectListeners_update f19 s) = loop_stopped s"
  "loop_stopped (valueListeners_update f20 s) = loop_stopped s"
  "loop_stopped (fresh_update f22 s) = loop_stopped s"
  "loop_stopped (writes_update f23 s) = loop_stopped s"
  "loop_stopped (connects_update f24 s) = loop_stopped s"
  "loop_stopped (disconnects_update f25 s) = loop_stopped s"
  "loop_stopped (effects_update f26 s) = loop_stopped s"
  by (simp_all add: loop_stopped_def)

lemma loop_stopped_emit [simp]: "loop_stopped (emit es s) = loop_stopped s"
  by (simp add: emit_def)

lemma loop_stopped_stop [simp]: "loop_stopped s \<Longrightarrow> loop_stopped (stopCommandLoop s)"
  by (simp add: stopCommandLoop_def loop_stopped_def)

lemma loop_stopped_after_stop: "timers_ok s \<Longrightarrow> loop_stopped (stopCommandLoop s)"
  by (simp add: loop_stopped_def stopCommandLoop_intervals)

lemma loop_stopped_tick_failed [simp]:
  "loop_stopped s \<Longrightarrow> loop_stopped (tick_failed e err s)"
  by (simp add: tick_failed_def)

lemma timerFires_stopped: "loop_stopped s \<Longrightarrow> timerFires i c s = s"
  by (simp add: timerFires_def loop_stopped_def)

lemma loop_stopped_writeSettles [simp]:
  "loop_stopped s \<Longrightarrow> loop_stopped (writeSettles k r s)"
  by (auto simp: writeSettles_def Let_def tick_finally_def split: option.splits)

lemma loop_stopped_handleDisconnected [simp]:
  "loop_stopped s \<Longrightarrow> loop_stopped (handleDisconnected s)"
  by (simp add: handleDisconnected_def Let_def)

lemma loop_stopped_fold_handle:
  "loop_stopped s \<Longrightarrow>
   loop_stopped (fold (\<lambda>l t. handleDisconnected (emit [OnDisconnect] t)) ls s)"
  by (induction ls arbitrary: s) simp_all

lemma loop_stopped_dispatch [simp]:
  "loop_stopped s \<Longrightarrow> loop_stopped (dispatchDisconnected s)"
  by (simp add: dispatchDisconnected_def loop_stopped_fold_handle)

lemma loop_stopped_service_disconnect_rest [simp]:
  "loop_stopped s \<Longrightarrow> loop_stopped (service_disconnect_rest s)"
  by (auto simp: service_disconnect_rest_def gattDisconnect_def Let_def split: option.splits)

lemma loop_stopped_disconnect_done [simp]:
  "loop_stopped s \<Longrightarrow> loop_stopped (disconnect_done f s)"
  by (simp add: disconnect_done_def disconnectDevice_rest_def connect_finally_def Let_def)

lemma loop_stopped_disconnectDevice [simp]:
  "loop_stopped s \<Longrightarrow> loop_stopped (disconnectDevice f s)"
  by (auto simp: disconnectDevice_def service_disconnect_def split: option.splits)

lemma loop_stopped_stopNotificationsSettles [simp]:
  "loop_stopped s \<Longrightarrow> loop_stopped (stopNotificationsSettles k r s)"
  by (auto simp: stopNotificationsSettles_def Let_def split: option.splits)

lemma loop_stopped_click [simp]: "loop_stopped s \<Longrightarrow> loop_stopped (click s)"
  by (simp add: click_def render_def connect_def Let_def)

lemma loop_stopped_linkDrops [simp]: "loop_stopped s \<Longrightarrow> loop_stopped (linkDrops s)"
  by (simp add: linkDrops_def)

lemma loop_stopped_notification [simp]:
  "loop_stopped s \<Longrightarrow> loop_stopped (notification view s)"
proof -
  have "loop_stopped (onNotify view t) = loop_stopped t" for t
    by (simp add: onNotify_def split: sum.splits)
  then have "loop_stopped t \<Longrightarrow> loop_stopped (fold (\<lambda>l t. onNotify view t) ls t)"
    for ls :: "nat list" and t
    by (induction ls arbitrary: t) simp_all
  then show "loop_stopped s \<Longrightarrow> loop_stopped (notification view s)"
    by (simp add: notification_def)
qed

lemma loop_stopped_step:
  "loop_stopped s \<Longrightarrow> \<not> starts_loop ev \<Longrightarrow> loop_stopped (step ev s)"
  by (cases ev) (simp_all add: timerFires_stopped render_def)

lemma tick_failed_effect:
  "effects (tick_failed e err s) =
     effects s @ [ConsoleError err, OnError e (error_message err)] @
     (case writeLoopId s of None \<Rightarrow> [] | Some j \<Rightarrow> [ClearInterval j])"
  "writeLoopId (tick_failed e err s) = None"
  "writeBusy (tick_failed e err s) = False"
  "writes (tick_failed e err s) = writes s"
  "serverConnected (tick_failed e err s) = serverConnected s"
  "device (tick_failed e err s) = device s"
  "server (tick_failed e err s) = server s"
  "writeChar (tick_failed e err s) = writeChar s"
  "notifyChar (tick_failed e err s) = notifyChar s"
  "fresh (tick_failed e err s) = fresh s"
  by (simp_all add: tick_failed_def stopCommandLoop_def emit_def split: option.splits)

lemma tick_failed_stopped: "timers_ok s \<Longrightarrow> loop_stopped (tick_failed e err s)"
  by (simp add: tick_failed_def loop_stopped_after_stop)

subsection \<open>Failing ticks\<close>

lemma busy_tick_skipped: "writeBusy s \<Longrightarrow> tick i getCommand onError command s = s"
  by (simp add: tick_def)

text \<open>
  Claim C5. A tick that is not skipped and fetches a command with a NaN field logs the
  error, reports the message of the invalid command to the error handler, and stops the
  loop; nothing is written to the characteristic and no write is left waiting.
\<close>

theorem nan_command_stops_loop:
  assumes "\<not> writeBusy s"
    and "Number_isNaN (vx c) \<or> Number_isNaN (vy c) \<or> Number_isNaN (w c)"
  shows "effects (tick i getCommand onError c s) =
           effects s @ [GetCommand getCommand, ConsoleError (Error InvalidNumberText),
                    OnError onError InvalidNumberText] @
           (case writeLoopId s of None \<Rightarrow> [] | Some j \<Rightarrow> [ClearInterval j]) \<and>
         writes (tick i getCommand onError c s) = writes s \<and>
         writeLoopId (tick i getCommand onError c s) = None \<and>
         writeBusy (tick i getCommand onError c s) = False \<and>
         (writeLoopId s = Some i \<and> intervals s = [(i, getCommand, onError)] \<longrightarrow>
            timerFires i c s = tick i getCommand onError c s \<and>
            intervals (timerFires i c s) = [])"
proof -
  define s1 where "s1 = emit [GetCommand getCommand] (s\<lparr>writeBusy := True\<rparr>)"
  have t: "tick i getCommand onError c s = tick_failed onError (Error InvalidNumberText) s1"
    using assms by (simp add: tick_def Let_def s1_def)
  have s1: "effects s1 = effects s @ [GetCommand getCommand]" "writeLoopId s1 = writeLoopId s"
    "writes s1 = writes s" "intervals s1 = intervals s"
    by (simp_all add: s1_def emit_def)
  have l: "effects (tick i getCommand onError c s) =
           effects s @ [GetCommand getCommand, ConsoleError (Error InvalidNumberText),
                    OnError onError InvalidNumberText] @
           (case writeLoopId s of None \<Rightarrow> [] | Some j \<Rightarrow> [ClearInterval j])"
    by (simp add: t tick_failed_effect s1)
  have r: "writes (tick i getCommand onError c s) = writes s"
    "writeLoopId (tick i getCommand onError c s) = None"
    "writeBusy (tick i getCommand onError c s) = False"
    by (simp_all add: t tick_failed_effect s1)
  have f: "timerFires i c s = tick i getCommand onError c s \<and>
           intervals (timerFires i c s) = []"
    if "writeLoopId s = Some i \<and> intervals s = [(i, getCommand, onError)]"
  proof -
    have "timerFires i c s = tick i getCommand onError c s"
      using that by (simp add: timerFires_def)
    moreover have "intervals (tick_failed onError (Error InvalidNumberText) s1) = []"
      using that by (simp add: tick_failed_def stopCommandLoop_def emit_def s1)
    ultimately show ?thesis by (simp add: t)
  qed
  from l r f show ?thesis by blast
qed

theorem nan_command_stops_loop_witness:
  "effects (timerFires 1 \<lparr>vx = NaN, vy = Finite 0, w = Finite 0\<rparr>
         (startCommandLoop 0 0 50 (initial True True True))) =
     [SetInterval 1 50, GetCommand 0, ConsoleError (Error InvalidNumberText),
      OnError 0 InvalidNumberText, ClearInterval 1] \<and>
   intervals (timerFires 1 \<lparr>vx = NaN, vy = Finite 0, w = Finite 0\<rparr>
         (startCommandLoop 0 0 50 (initial True True True))) = []"
proof -
  let ?s = "startCommandLoop 0 0 50 (initial True True True)"
  let ?c = "\<lparr>vx = NaN, vy = Finite 0, w = Finite 0\<rparr>"
  have s: "effects ?s = [SetInterval 1 50]" "writeLoopId ?s = Some 1" "intervals ?s = [(1, 0, 0)]"
    "\<not> writeBusy ?s"
    by (simp_all add: startCommandLoop_def initial_def emit_def)
  have c: "Number_isNaN (vx ?c) \<or> Number_isNaN (vy ?c) \<or> Number_isNaN (w ?c)"
    by simp
  show ?thesis
    using nan_command_stops_loop [OF s(4) c, of 1 0 0] s(1-3) by auto
qed

lemma stopped_outcome:
  assumes "loop_stopped t"
  shows "intervals t = [] \<and> (\<forall>j d. timerFires j d t = t) \<and>
         (\<forall>ev. \<not> starts_loop ev \<longrightarrow> intervals (step ev t) = []) \<and>
         intervals (startCommandLoop g2 e2 ms t) = [(fresh t, g2, e2)]"
proof -
  have "intervals (step ev t) = []" if "\<not> starts_loop ev" for ev
    using loop_stopped_step [OF assms that] by (simp add: loop_stopped_def)
  moreover have "intervals (startCommandLoop g2 e2 ms t) = [(fresh t, g2, e2)]"
    using assms by (simp add: startCommandLoop_def loop_stopped_def emit_def Let_def)
  ultimately show ?thesis
    using assms by (simp add: timerFires_stopped) (simp add: loop_stopped_def)
qed

text \<open>
  Claim C6. In every state the program reaches, a tick that fails, because the write it
  waited for is rejected, because the command has a NaN field or because there is no
  characteristic to write to, reports the message to the error handler once and cancels
  the timer. It writes nothing more, no later firing
  of an interval does anything, the session fields and the connection are as before, and
  the only events after which an interval is active again are those that call
  \<open>startCommandLoop\<close>, which installs a fresh one.
\<close>

theorem tick_failure_terminates_loop:
  "(let s = run evs (initial a b c); t = writeSettles k (Some err) s
    in k < length (writes s) \<longrightarrow>
       effects t = effects s @ [ConsoleError err, OnError (snd (writes s ! k)) (error_message err)] @
               (case writeLoopId s of None \<Rightarrow> [] | Some j \<Rightarrow> [ClearInterval j]) \<and>
       writes t = take k (writes s) @ drop (Suc k) (writes s) \<and>
       writeLoopId t = None \<and> writeBusy t = False \<and> intervals t = [] \<and>
       serverConnected t = serverConnected s \<and> device t = device s \<and> server t = server s \<and>
       writeChar t = writeChar s \<and> notifyChar t = notifyChar s \<and>
       (\<forall>j d. timerFires j d t = t) \<and>
       (\<forall>ev. \<not> starts_loop ev \<longrightarrow> intervals (step ev t) = []) \<and>
       intervals (startCommandLoop g2 e2 ms t) = [(fresh t, g2, e2)]) \<and>
   (let s = run evs (initial a b c); t = tick i g e cmd s
    in \<not> writeBusy s \<and>
       (Number_isNaN (vx cmd) \<or> Number_isNaN (vy cmd) \<or> Number_isNaN (w cmd)) \<longrightarrow>
       effects t = effects s @ [GetCommand g, ConsoleError (Error InvalidNumberText),
                        OnError e InvalidNumberText] @
               (case writeLoopId s of None \<Rightarrow> [] | Some j \<Rightarrow> [ClearInterval j]) \<and>
       writes t = writes s \<and>
       writeLoopId t = None \<and> writeBusy t = False \<and> intervals t = [] \<and>
       serverConnected t = serverConnected s \<and> device t = device s \<and> server t = server s \<and>
       writeChar t = writeChar s \<and> notifyChar t = notifyChar s \<and>
       (\<forall>j d. timerFires j d t = t) \<and>
       (\<forall>ev. \<not> starts_loop ev \<longrightarrow> intervals (step ev t) = []) \<and>
       intervals (startCommandLoop g2 e2 ms t) = [(fresh t, g2, e2)]) \<and>
   (let s = run evs (initial a b c); t = tick i g e cmd s
    in \<not> writeBusy s \<and>
       \<not> (Number_isNaN (vx cmd) \<or> Number_isNaN (vy cmd) \<or> Number_isNaN (w cmd)) \<and>
       writeChar s = None \<longrightarrow>
       effects t = effects s @ [GetCommand g, ConsoleError (Error NoWriteCharacteristicText),
                        OnError e NoWriteCharacteristicText] @
               (case writeLoopId s of None \<Rightarrow> [] | Some j \<Rightarrow> [ClearInterval j]) \<and>
       writes t = writes s \<and>
       writeLoopId t = None \<and> writeBusy t = False \<and> intervals t = [] \<and>
       serverConnected t = serverConnected s \<and> device t = device s \<and> server t = server s \<and>
       writeChar t = writeChar s \<and> notifyChar t = notifyChar s \<and>
       (\<forall>j d. timerFires j d t = t) \<and>
       (\<forall>ev. \<not> starts_loop ev \<longrightarrow> intervals (step ev t) = []) \<and>
       intervals (startCommandLoop g2 e2 ms t) = [(fresh t, g2, e2)])"
proof -
  define s where "s = run evs (initial a b c)"
  have ok: "timers_ok s"
    unfolding s_def by (intro timers_ok_run timers_ok_initial)
  have part1: "effects t = effects s @ [ConsoleError err, OnError (snd (writes s ! k)) (error_message err)] @
               (case writeLoopId s of None \<Rightarrow> [] | Some j \<Rightarrow> [ClearInterval j]) \<and>
       writes t = take k (writes s) @ drop (Suc k) (writes s) \<and>
       writeLoopId t = None \<and> writeBusy t = False \<and> intervals t = [] \<and>
       serverConnected t = serverConnected s \<and> device t = device s \<and> server t = server s \<and>
       writeChar t = writeChar s \<and> notifyChar t = notifyChar s \<and>
       (\<forall>j d. timerFires j d t = t) \<and>
       (\<forall>ev. \<not> starts_loop ev \<longrightarrow> intervals (step ev t) = []) \<and>
       intervals (startCommandLoop g2 e2 ms t) = [(fresh t, g2, e2)]"
    if k: "k < length (writes s)" and t: "t = writeSettles k (Some err) s" for t
  proof -
    define s1 where "s1 = s\<lparr>writes := take k (writes s) @ drop (Suc k) (writes s)\<rparr>"
    have t': "t = tick_failed (snd (writes s ! k)) err s1"
      using k by (simp add: t writeSettles_def Let_def s1_def)
    have "timers_ok s1" using ok by (simp add: s1_def)
    then have "loop_stopped t" unfolding t' by (rule tick_failed_stopped)
    then show ?thesis
      using stopped_outcome [of t g2 e2 ms]
      by (simp add: t' tick_failed_effect) (simp add: s1_def)
  qed
  have part2: "effects t = effects s @ [GetCommand g, ConsoleError (Error InvalidNumberText),
                        OnError e InvalidNumberText] @
               (case writeLoopId s of None \<Rightarrow> [] | Some j \<Rightarrow> [ClearInterval j]) \<and>
       writes t = writes s \<and>
       writeLoopId t = None \<and> writeBusy t = False \<and> intervals t = [] \<and>
       serverConnected t = serverConnected s \<and> device t = device s \<and> server t = server s \<and>
       writeChar t = writeChar s \<and> notifyChar t = notifyChar s \<and>
       (\<forall>j d. timerFires j d t = t) \<and>
       (\<forall>ev. \<not> starts_loop ev \<longrightarrow> intervals (step ev t) = []) \<and>
       intervals (startCommandLoop g2 e2 ms t) = [(fresh t, g2, e2)]"
    if idle: "\<not> writeBusy s"
      and nan: "Number_isNaN (vx cmd) \<or> Number_isNaN (vy cmd) \<or> Number_isNaN (w cmd)"
      and t: "t = tick i g e cmd s" for t
  proof -
    define s1 where "s1 = emit [GetCommand g] (s\<lparr>writeBusy := True\<rparr>)"
    have t': "t = tick_failed e (Error InvalidNumberText) s1"
      using idle nan by (simp add: t tick_def Let_def s1_def)
    have "timers_ok s1" using ok by (simp add: s1_def)
    then have "loop_stopped t" unfolding t' by (rule tick_failed_stopped)
    then show ?thesis
      using stopped_outcome [of t g2 e2 ms]
      by (simp add: t' tick_failed_effect) (simp add: s1_def emit_def)
  qed
  have part3: "effects t = effects s @ [GetCommand g, ConsoleError (Error NoWriteCharacteristicText),
                        OnError e NoWriteCharacteristicText] @
               (case writeLoopId s of None \<Rightarrow> [] | Some j \<Rightarrow> [ClearInterval j]) \<and>
       writes t = writes s \<and>
       writeLoopId t = None \<and> writeBusy t = False \<and> intervals t = [] \<and>
       serverConnected t = serverConnected s \<and> device t = device s \<and> server t = server s \<and>
       writeChar t = writeChar s \<and> notifyChar t = notifyChar s \<and>
       (\<forall>j d. timerFires j d t = t) \<and>
       (\<forall>ev. \<not> starts_loop ev \<longrightarrow> intervals (step ev t) = []) \<and>
       intervals (startCommandLoop g2 e2 ms t) = [(fresh t, g2, e2)]"
    if idle: "\<not> writeBusy s"
      and num: "\<not> (Number_isNaN (vx cmd) \<or> Number_isNaN (vy cmd) \<or> Number_isNaN (w cmd))"
      and none: "writeChar s = None"
      and t: "t = tick i g e cmd s" for t
  proof -
    define s1 where "s1 = emit [GetCommand g] (s\<lparr>writeBusy := True\<rparr>)"
    have "writeCommand cmd s1 = Inl (Error NoWriteCharacteristicText)"
      using none by (simp add: writeCommand_def s1_def emit_def)
    then have t': "t = tick_failed e (Error NoWriteCharacteristicText) s1"
      using idle num by (simp add: t tick_def Let_def flip: s1_def)
    have "timers_ok s1" using ok by (simp add: s1_def)
    then have "loop_stopped t" unfolding t' by (rule tick_failed_stopped)
    then show ?thesis
      using stopped_outcome [of t g2 e2 ms]
      by (simp add: t' tick_failed_effect) (simp add: s1_def emit_def)
  qed
  show ?thesis
    unfolding Let_def s_def [symmetric]
    apply (rule conjI)
     apply (rule impI)
     apply (erule part1 [OF _ refl])
    apply (rule conjI)
     apply (rule impI)
     apply (elim conjE)
     apply (rule part2 [OF _ _ refl]; assumption)
    apply (rule impI)
    apply (elim conjE)
    apply (rule part3 [OF _ _ _ refl]; assumption)
    done
qed

theorem tick_failure_terminates_loop_witness:
  "effects (writeSettles 0 (Some (DOMException ''NetworkError'' ''GATT operation failed.''))
         (run (connected_trace @ [TimerFires 3 zero_command]) (initial True True True))) =
     [RequestDevice, GattConnect, SetInterval 3 50, GetCommand 0,
      WriteValueWithoutResponse [0, 0, 0, 0, 0, 0, 0, 0, 0, 0, 0, 0],
      ConsoleError (DOMException ''NetworkError'' ''GATT operation failed.''),
      OnError 0 (Str ''GATT operation failed.''), ClearInterval 3] \<and>
   intervals (writeSettles 0 (Some (DOMException ''NetworkError'' ''GATT operation failed.''))
         (run (connected_trace @ [TimerFires 3 zero_command]) (initial True True True))) = [] \<and>
   effects (tick 1 0 0 \<lparr>vx = Finite 0, vy = NaN, w = Finite 0\<rparr>
         (run [StartCommandLoop 0 0 50] (initial True True True))) =
     [SetInterval 1 50, GetCommand 0, ConsoleError (Error InvalidNumberText),
      OnError 0 InvalidNumberText, ClearInterval 1] \<and>
   effects (tick 1 0 0 zero_command (run [StartCommandLoop 0 0 50] (initial True True True))) =
     [SetInterval 1 50, GetCommand 0, ConsoleError (Error NoWriteCharacteristicText),
      OnError 0 NoWriteCharacteristicText, ClearInterval 1]"
proof -
  let ?err = "DOMException ''NetworkError'' ''GATT operation failed.''"
  let ?s = "run (connected_trace @ [TimerFires 3 zero_command]) (initial True True True)"
  let ?u = "run [StartCommandLoop 0 0 50] (initial True True True)"
  let ?c = "\<lparr>vx = Finite 0, vy = NaN, w = Finite 0\<rparr>"
  have s: "0 < length (writes ?s)" "writes ?s ! 0 = (3, 0)" "writeLoopId ?s = Some 3"
    "effects ?s = [RequestDevice, GattConnect, SetInterval 3 50, GetCommand 0,
      WriteValueWithoutResponse [0, 0, 0, 0, 0, 0, 0, 0, 0, 0, 0, 0]]"
    by code_simp+
  have u: "\<not> writeBusy ?u" "writeLoopId ?u = Some 1" "effects ?u = [SetInterval 1 50]"
    "writeChar ?u = None"
    by code_simp+
  have c: "Number_isNaN (vx ?c) \<or> Number_isNaN (vy ?c) \<or> Number_isNaN (w ?c)"
    by simp
  have z: "\<not> (Number_isNaN (vx zero_command) \<or> Number_isNaN (vy zero_command) \<or>
               Number_isNaN (w zero_command))"
    by (simp add: zero_command_def)
  show ?thesis
    using tick_failure_terminates_loop
            [where k = 0 and err = ?err and evs = "connected_trace @ [TimerFires 3 zero_command]"
               and a = True and b = True and c = True]
          tick_failure_terminates_loop
            [where evs = "[StartCommandLoop 0 0 50]" and a = True and b = True and c = True
               and i = 1 and g = 0 and e = 0 and cmd = ?c]
          tick_failure_terminates_loop
            [where evs = "[StartCommandLoop 0 0 50]" and a = True and b = True and c = True
               and i = 1 and g = 0 and e = 0 and cmd = zero_command]
          s u c z
    by (simp add: Let_def)
qed

text \<open>
  Claim C10. \<open>startCommandLoop\<close> on a service whose loop id is set returns without
  any change: no second timer, and the accessor and the error handler of the running loop
  stay. It installs a timer exactly when the id is \<open>null\<close>, which is what
  \<open>stopCommandLoop\<close> leaves; and in every state the program reaches at most one
  interval is active, the one whose id is stored.
\<close>

theorem startCommandLoop_once:
  "(writeLoopId s \<noteq> None \<longrightarrow> startCommandLoop getCommand onError intervalMs s = s) \<and>
   (writeLoopId s = None \<longrightarrow>
      writeLoopId (startCommandLoop getCommand onError intervalMs s) = Some (fresh s) \<and>
      intervals (startCommandLoop getCommand onError intervalMs s) =
        intervals s @ [(fresh s, getCommand, onError)]) \<and>
   writeLoopId (stopCommandLoop s) = None \<and>
   (let t = run evs (initial a b c)
    in length (intervals t) \<le> 1 \<and>
       map fst (intervals t) = (case writeLoopId t of None \<Rightarrow> [] | Some i \<Rightarrow> [i]))"
proof -
  have "timers_ok (run evs (initial a b c))"
    by (intro timers_ok_run timers_ok_initial)
  then have "map fst (intervals (run evs (initial a b c))) =
      (case writeLoopId (run evs (initial a b c)) of None \<Rightarrow> [] | Some i \<Rightarrow> [i])"
    by (simp add: timers_ok_def)
  moreover from this have "length (map fst (intervals (run evs (initial a b c)))) \<le> 1"
    by (simp split: option.splits)
  then have "length (intervals (run evs (initial a b c))) \<le> 1"
    by (simp only: length_map)
  ultimately show ?thesis
    by (simp add: startCommandLoop_def emit_def Let_def)
qed

theorem startCommandLoop_once_witness:
  "startCommandLoop 7 8 20 (startCommandLoop 0 0 50 (initial True True True)) =
     startCommandLoop 0 0 50 (initial True True True) \<and>
   intervals (startCommandLoop 0 0 50 (initial True True True)) = [(1, 0, 0)] \<and>
   intervals (startCommandLoop 7 8 20 (stopCommandLoop
     (startCommandLoop 0 0 50 (initial True True True)))) = [(2, 7, 8)]"
proof -
  let ?s = "startCommandLoop 0 0 50 (initial True True True)"
  have a: "writeLoopId ?s \<noteq> None" "writeLoopId (initial True True True) = None"
    "intervals (initial True True True) = []" "fresh (initial True True True) = 1"
    "fresh (stopCommandLoop ?s) = 2" "intervals (stopCommandLoop ?s) = []"
    by code_simp+
  show ?thesis
    using startCommandLoop_once [where s = ?s and getCommand = 7 and onError = 8 and intervalMs = 20]
      startCommandLoop_once [where s = "initial True True True" and getCommand = 0
        and onError = 0 and intervalMs = 50]
      startCommandLoop_once [where s = "stopCommandLoop ?s" and getCommand = 7 and onError = 8
        and intervalMs = 20] a
    by simp
qed

section \<open>The application\<close>

lemma app_inv_update [simp]:
  "app_inv (device_update f0 s) = app_inv s"
  "app_inv (server_update f1 s) = app_inv s"
  "app_inv (writeChar_update f2 s) = app_inv s"
  "app_inv (notifyChar_update f3 s) = app_inv s"
  "app_inv (notifyHandler_update f4 s) = app_inv s"
  "app_inv (disconnectHandler_update f5 s) = app_inv s"
  "app_inv (writeLoopId_update f6 s) = app_inv s"
  "app_inv (writeBusy_update f7 s) = app_inv s"
  "app_inv (userDisconnectRef_update f14 s) = app_inv s"
  "app_inv (bluetooth_update f15 s) = app_inv s"
  "app_inv (gatt_update f16 s) = app_inv s"
  "app_inv (withoutResponse_update f17 s) = app_inv s"
  "app_inv (serverConnected_update f18 s) = app_inv s"
  "app_inv (disconnectListeners_update f19 s) = app_inv s"
  "app_inv (valueListeners_update f20 s) = app_inv s"
  "app_inv (intervals_update f21 s) = app_inv s"
  "app_inv (fresh_update f22 s) = app_inv s"
  "app_inv (writes_update f23 s) = app_inv s"
  "app_inv (effects_update f26 s) = app_inv s"
  by (simp_all add: app_inv_def)

lemma app_inv_emit [simp]: "app_inv (emit es s) = app_inv s"
  by (simp add: emit_def)

lemma app_inv_disconnected [simp]: "app_inv s \<Longrightarrow> app_inv (s\<lparr>isConnected := False\<rparr>)"
  by (simp add: app_inv_def)

lemma stopCommandLoop_session [simp]:
  "connects (stopCommandLoop s) = connects s"
  "disconnects (stopCommandLoop s) = disconnects s"
  "isConnecting (stopCommandLoop s) = isConnecting s"
  "isDisconnecting (stopCommandLoop s) = isDisconnecting s"
  "isConnected (stopCommandLoop s) = isConnected s"
  "seenConnecting (stopCommandLoop s) = seenConnecting s"
  "seenDisconnecting (stopCommandLoop s) = seenDisconnecting s"
  "seenConnected (stopCommandLoop s) = seenConnected s"
  "notifyChar (stopCommandLoop s) = notifyChar s"
  "notifyHandler (stopCommandLoop s) = notifyHandler s"
  "bluetooth (stopCommandLoop s) = bluetooth s"
  by (simp_all add: stopCommandLoop_def emit_def split: option.splits)

lemma startCommandLoop_session [simp]:
  "connects (startCommandLoop g e ms s) = connects s"
  "disconnects (startCommandLoop g e ms s) = disconnects s"
  "isConnecting (startCommandLoop g e ms s) = isConnecting s"
  "isDisconnecting (startCommandLoop g e ms s) = isDisconnecting s"
  "isConnected (startCommandLoop g e ms s) = isConnected s"
  "seenConnecting (startCommandLoop g e ms s) = seenConnecting s"
  "seenDisconnecting (startCommandLoop g e ms s) = seenDisconnecting s"
  "seenConnected (startCommandLoop g e ms s) = seenConnected s"
  "notifyChar (startCommandLoop g e ms s) = notifyChar s"
  "notifyHandler (startCommandLoop g e ms s) = notifyHandler s"
  "bluetooth (startCommandLoop g e ms s) = bluetooth s"
  by (simp_all add: startCommandLoop_def emit_def Let_def)

lemma emit_session [simp]:
  "connects (emit es s) = connects s"
  "disconnects (emit es s) = disconnects s"
  "isConnecting (emit es s) = isConnecting s"
  "isDisconnecting (emit es s) = isDisconnecting s"
  "isConnected (emit es s) = isConnected s"
  "seenConnecting (emit es s) = seenConnecting s"
  "seenDisconnecting (emit es s) = seenDisconnecting s"
  "seenConnected (emit es s) = seenConnected s"
  "notifyChar (emit es s) = notifyChar s"
  "notifyHandler (emit es s) = notifyHandler s"
  "bluetooth (emit es s) = bluetooth s"
  by (simp_all add: emit_def)

lemma handleDisconnected_session [simp]:
  "connects (handleDisconnected s) = connects s"
  "disconnects (handleDisconnected s) = disconnects s"
  "isConnecting (handleDisconnected s) = isConnecting s"
  "isDisconnecting (handleDisconnected s) = isDisconnecting s"
  "seenConnecting (handleDisconnected s) = seenConnecting s"
  "seenDisconnecting (handleDisconnected s) = seenDisconnecting s"
  "seenConnected (handleDisconnected s) = seenConnected s"
  by (simp_all add: handleDisconnected_def Let_def)

lemma app_inv_stop [simp]: "app_inv (stopCommandLoop s) = app_inv s"
  by (simp add: app_inv_def)

lemma app_inv_start [simp]: "app_inv (startCommandLoop g e ms s) = app_inv s"
  by (simp add: app_inv_def)

lemma app_inv_handleDisconnected [simp]: "app_inv s \<Longrightarrow> app_inv (handleDisconnected s)"
  by (simp add: handleDisconnected_def Let_def)

lemma fold_handle_session:
  "connects (fold (\<lambda>l t. handleDisconnected (emit [OnDisconnect] t)) ls s) = connects s"
  "disconnects (fold (\<lambda>l t. handleDisconnected (emit [OnDisconnect] t)) ls s) = disconnects s"
  "isConnecting (fold (\<lambda>l t. handleDisconnected (emit [OnDisconnect] t)) ls s) = isConnecting s"
  "isDisconnecting (fold (\<lambda>l t. handleDisconnected (emit [OnDisconnect] t)) ls s) = isDisconnecting s"
  "seenConnecting (fold (\<lambda>l t. handleDisconnected (emit [OnDisconnect] t)) ls s) = seenConnecting s"
  "seenDisconnecting (fold (\<lambda>l t. handleDisconnected (emit [OnDisconnect] t)) ls s) = seenDisconnecting s"
  "seenConnected (fold (\<lambda>l t. handleDisconnected (emit [OnDisconnect] t)) ls s) = seenConnected s"
  by (induction ls arbitrary: s) simp_all

lemma app_inv_fold_handle:
  "app_inv s \<Longrightarrow> app_inv (fold (\<lambda>l t. handleDisconnected (emit [OnDisconnect] t)) ls s)"
  by (induction ls arbitrary: s) simp_all

lemma dispatchDisconnected_session [simp]:
  "connects (dispatchDisconnected s) = connects s"
  "disconnects (dispatchDisconnected s) = disconnects s"
  "isConnecting (dispatchDisconnected s) = isConnecting s"
  "isDisconnecting (dispatchDisconnected s) = isDisconnecting s"
  "seenConnecting (dispatchDisconnected s) = seenConnecting s"
  "seenDisconnecting (dispatchDisconnected s) = seenDisconnecting s"
  "seenConnected (dispatchDisconnected s) = seenConnected s"
  by (simp_all add: dispatchDisconnected_def fold_handle_session)

lemma gattDisconnect_session [simp]:
  "connects (gattDisconnect s) = connects s"
  "disconnects (gattDisconnect s) = disconnects s"
  "isConnecting (gattDisconnect s) = isConnecting s"
  "isDisconnecting (gattDisconnect s) = isDisconnecting s"
  "seenConnecting (gattDisconnect s) = seenConnecting s"
  "seenDisconnecting (gattDisconnect s) = seenDisconnecting s"
  "seenConnected (gattDisconnect s) = seenConnected s"
  by (simp_all add: gattDisconnect_def)

lemma service_disconnect_rest_session [simp]:
  "connects (service_disconnect_rest s) = connects s"
  "disconnects (service_disconnect_rest s) = disconnects s"
  "isConnecting (service_disconnect_rest s) = isConnecting s"
  "isDisconnecting (service_disconnect_rest s) = isDisconnecting s"
  "seenConnecting (service_disconnect_rest s) = seenConnecting s"
  "seenDisconnecting (service_disconnect_rest s) = seenDisconnecting s"
  "seenConnected (service_disconnect_rest s) = seenConnected s"
  by (simp_all add: service_disconnect_rest_def Let_def split: option.splits)

lemma app_inv_dispatch [simp]: "app_inv s \<Longrightarrow> app_inv (dispatchDisconnected s)"
  by (simp add: dispatchDisconnected_def app_inv_fold_handle)

lemma tick_failed_session [simp]: "app_inv (tick_failed e err s) = app_inv s"
  by (simp add: tick_failed_def)

lemma app_inv_tick [simp]: "app_inv (tick i g e c s) = app_inv s"
  by (auto simp: tick_def Let_def writeCommand_def split: sum.splits option.splits)

lemma app_inv_timerFires [simp]: "app_inv (timerFires i c s) = app_inv s"
  by (auto simp: timerFires_def split: option.splits)

lemma app_inv_writeSettles [simp]: "app_inv (writeSettles k r s) = app_inv s"
  by (auto simp: writeSettles_def Let_def tick_finally_def split: option.splits)

lemma app_inv_linkDrops [simp]: "app_inv s \<Longrightarrow> app_inv (linkDrops s)"
  by (simp add: linkDrops_def)

lemma app_inv_notification [simp]: "app_inv (notification view s) = app_inv s"
proof -
  have "app_inv (onNotify view t) = app_inv t" for t
    by (simp add: onNotify_def split: sum.splits)
  then have "app_inv (fold (\<lambda>l t. onNotify view t) ls t) = app_inv t" for ls :: "nat list" and t
    by (induction ls arbitrary: t) simp_all
  then show ?thesis by (simp add: notification_def)
qed

lemma app_inv_render [simp]: "app_inv s \<Longrightarrow> app_inv (render s)"
  by (auto simp: app_inv_def render_def)

lemma disconnect_done_session:
  "connects (disconnect_done f s) = connects s"
  "disconnects (disconnect_done f s) = disconnects s"
  "isConnecting (disconnect_done f s) = (isConnecting s \<and> \<not> f)"
  "isDisconnecting (disconnect_done f s) = False"
  "isConnected (disconnect_done f s) = False"
  "seenConnecting (disconnect_done f s) = seenConnecting s"
  "seenDisconnecting (disconnect_done f s) = seenDisconnecting s"
  "seenConnected (disconnect_done f s) = seenConnected s"
  by (simp_all add: disconnect_done_def Let_def disconnectDevice_rest_def connect_finally_def)

lemma one_task:
  "length cs + length ds \<le> 1 \<Longrightarrow> k < length cs \<Longrightarrow> ds = [] \<and> length cs = 1 \<and> k = 0"
  by (cases cs; cases ds) auto

lemma no_bools: "True \<notin> set ds \<Longrightarrow> False \<notin> set ds \<Longrightarrow> ds = []"
proof (cases ds)
  case (Cons a list)
  assume "True \<notin> set ds" "False \<notin> set ds"
  with Cons show ?thesis by (cases a) auto
qed simp

lemma app_inv_stopNotificationsSettles [simp]:
  "app_inv s \<Longrightarrow> app_inv (stopNotificationsSettles k r s)"
proof (cases "k < length (disconnects s)")
  case False
  assume "app_inv s"
  with False show ?thesis by (simp add: stopNotificationsSettles_def)
next
  case True
  assume inv: "app_inv s"
  then have "length (disconnects s) + length (connects s) \<le> 1"
    by (simp add: app_inv_def)
  with True have shape: "connects s = []" "length (disconnects s) = 1" "k = 0"
    using one_task [of "disconnects s" "connects s" k] by simp_all
  then have "take k (disconnects s) @ drop (Suc k) (disconnects s) = []" by simp
  then show ?thesis
    using inv True shape
    by (auto simp: stopNotificationsSettles_def Let_def app_inv_def disconnect_done_session
             split: option.splits)
qed

lemma disconnectDevice_inv:
  assumes "app_inv s" "connects s = []" "disconnects s = []"
    and "f \<longrightarrow> isConnecting s \<and> seenConnecting s"
  shows "app_inv (render (disconnectDevice False s))"
    and "f \<Longrightarrow> app_inv (disconnectDevice True s)"
  using assms
  by (auto simp: disconnectDevice_def service_disconnect_def app_inv_def render_def
        disconnect_done_session split: option.splits)

lemma service_connect_step_session:
  "connects (snd (service_connect_step stage r s)) = connects s"
  "disconnects (snd (service_connect_step stage r s)) = disconnects s"
  "isConnecting (snd (service_connect_step stage r s)) = isConnecting s"
  "isDisconnecting (snd (service_connect_step stage r s)) = isDisconnecting s"
  "isConnected (snd (service_connect_step stage r s)) = isConnected s"
  "seenConnecting (snd (service_connect_step stage r s)) = seenConnecting s"
  "seenDisconnecting (snd (service_connect_step stage r s)) = seenDisconnecting s"
  "seenConnected (snd (service_connect_step stage r s)) = seenConnected s"
  "notifyChar (snd (service_connect_step stage r s)) = notifyChar s \<or> stage = StartingNotifications"
  by (cases stage; cases r; simp add: Let_def)+

lemma app_inv_connectSettles [simp]:
  "app_inv s \<Longrightarrow> app_inv (connectSettles k r s)"
proof (cases "k < length (connects s)")
  case False
  assume "app_inv s"
  with False show ?thesis by (simp add: connectSettles_def)
next
  case True
  assume inv: "app_inv s"
  then have "length (connects s) + length (disconnects s) \<le> 1"
    by (simp add: app_inv_def)
  with True have shape: "disconnects s = []" "length (connects s) = 1" "k = 0"
    using one_task [of "connects s" "disconnects s" k] by simp_all
  define s0 where "s0 = s\<lparr>connects := take k (connects s) @ drop (Suc k) (connects s)\<rparr>"
  have s0: "connects s0 = []" "disconnects s0 = []" "isConnecting s0" "seenConnecting s0"
    "\<not> isConnected s0" "app_inv s0"
    using inv True shape by (auto simp: s0_def app_inv_def)
  obtain p s1 where step: "service_connect_step (connects s ! k) r s0 = (p, s1)" by force
  have s1: "connects s1 = []" "disconnects s1 = []" "isConnecting s1" "seenConnecting s1"
    "\<not> isConnected s1" "seenDisconnecting s1 = seenDisconnecting s0" "seenConnected s1 = seenConnected s0"
    using s0 service_connect_step_session [of "connects s ! k" r s0] by (simp_all add: step)
  then have inv1: "app_inv s1" using s0 by (simp add: app_inv_def)
  have "app_inv (connect_resume (connects s ! k) r s0)"
  proof (cases p)
    case (Awaiting stage')
    then show ?thesis using s1 inv1 by (simp add: connect_resume_def step app_inv_def)
  next
    case Returned
    then show ?thesis
      using s1 inv1
      by (simp add: connect_resume_def step connect_finally_def startWriteLoop_def app_inv_def)
  next
    case (Threw err)
    have "app_inv (disconnectDevice True
            ((emit [Alert (error_message err)] (emit [ConsoleError err] s1))\<lparr>isConnected := False\<rparr>))"
      using s1 inv1 by (intro disconnectDevice_inv(2) [where f = True]) simp_all
    moreover have "app_inv (connect_finally (emit [ConsoleError err] s1))"
      using s1 inv1 by (simp add: connect_finally_def app_inv_def)
    ultimately show ?thesis
      using Threw by (simp add: connect_resume_def step connect_catch_def Let_def)
  qed
  then show ?thesis using True by (simp add: connectSettles_def s0_def)
qed

lemma app_inv_click [simp]: "app_inv s \<Longrightarrow> app_inv (click s)"
proof (cases "seenConnecting s \<or> seenDisconnecting s")
  case True
  assume "app_inv s"
  with True show ?thesis by (simp add: click_def)
next
  case False
  assume inv: "app_inv s"
  have idle: "connects s = []" "disconnects s = []"
  proof -
    show "connects s = []" using inv False by (auto simp: app_inv_def)
    have "True \<notin> set (disconnects s)" "False \<notin> set (disconnects s)"
      using inv False by (auto simp: app_inv_def)
    then show "disconnects s = []" by (rule no_bools)
  qed
  show ?thesis
  proof (cases "seenConnected s")
    case True
    then show ?thesis
      using False inv idle disconnectDevice_inv(1) [of s False] by (simp add: click_def)
  next
    case notseen: False
    then have "\<not> isConnected s" using inv False by (auto simp: app_inv_def)
    then show ?thesis
      using False notseen inv idle
      by (auto simp: click_def connect_def Let_def app_inv_def render_def)
  qed
qed

lemma app_inv_step: "app_inv s \<Longrightarrow> app_inv (step ev s)"
  by (cases ev) simp_all

lemma app_inv_initial: "app_inv (initial a b c)"
  by (simp add: app_inv_def initial_def)

lemma app_inv_run: "app_inv s \<Longrightarrow> app_inv (run evs s)"
  unfolding run_def by (induction evs arbitrary: s) (simp_all add: app_inv_step)

lemma handleDisconnected_notifyHandler:
  "notifyHandler (handleDisconnected (emit es s)) = notifyHandler s"
  by (simp add: handleDisconnected_def Let_def stopCommandLoop_def emit_def
           split: option.splits)

lemma fold_handle_notifyHandler:
  "notifyHandler (fold (\<lambda>l t. handleDisconnected (emit [OnDisconnect] t)) ls s) = notifyHandler s"
  by (induction ls arbitrary: s) (simp_all add: handleDisconnected_notifyHandler)

lemma service_disconnect_rest_fields:
  "notifyHandler (service_disconnect_rest s) = None"
  "device (service_disconnect_rest s) = None"
  "server (service_disconnect_rest s) = None"
  "writeChar (service_disconnect_rest s) = None"
  "notifyChar (service_disconnect_rest s) = None"
  "disconnectHandler (service_disconnect_rest s) = None"
  by (simp_all add: service_disconnect_rest_def Let_def gattDisconnect_def
        dispatchDisconnected_def fold_handle_notifyHandler split: option.splits)

lemma service_disconnect_rest_closed:
  assumes "notifyHandler t = None" "device t = None" "server t = None" "writeChar t = None"
    "notifyChar t = None" "disconnectHandler t = None"
  shows "service_disconnect_rest t = t"
  using assms by (cases t) (simp add: service_disconnect_rest_def)

lemma stopCommandLoop_idem: "stopCommandLoop (stopCommandLoop s) = stopCommandLoop s"
  by (cases s) (simp add: stopCommandLoop_def emit_def split: option.splits)

text \<open>
  Claim C8. Stopping twice is stopping once, and stopping a loop that never started
  changes nothing; the same for \<open>BluetoothService.disconnect\<close> and for
  \<open>disconnectDevice\<close> on a session that never opened. After \<open>stopCommandLoop\<close>
  the busy flag is clear, no loop id is stored and, in every state the program reaches,
  no interval is left, so that no firing does anything.
\<close>

theorem stop_and_close_idempotent:
  "stopCommandLoop (stopCommandLoop s) = stopCommandLoop s \<and>
   stopCommandLoop (initial a b c) = initial a b c \<and>
   service_disconnect_rest (service_disconnect_rest s) = service_disconnect_rest s \<and>
   service_disconnect_rest (initial a b c) = initial a b c \<and>
   service_disconnect fromConnect (initial a b c) = initial a b c \<and>
   disconnectDevice False (initial a b c) = initial a b c \<and>
   writeBusy (stopCommandLoop s) = False \<and>
   writeLoopId (stopCommandLoop s) = None \<and>
   (let t = stopCommandLoop (run evs (initial a b c))
    in intervals t = [] \<and> (\<forall>i command. timerFires i command t = t))"
proof -
  have "timers_ok (run evs (initial a b c))"
    by (intro timers_ok_run timers_ok_initial)
  then have "loop_stopped (stopCommandLoop (run evs (initial a b c)))"
    by (rule loop_stopped_after_stop)
  then have stopped: "intervals (stopCommandLoop (run evs (initial a b c))) = []"
    "timerFires i command (stopCommandLoop (run evs (initial a b c))) =
       stopCommandLoop (run evs (initial a b c))" for i command
    by (simp_all add: timerFires_stopped) (simp add: loop_stopped_def)
  have idem: "service_disconnect_rest (service_disconnect_rest s) = service_disconnect_rest s"
    by (intro service_disconnect_rest_closed service_disconnect_rest_fields)
  have init: "stopCommandLoop (initial a b c) = initial a b c"
    "service_disconnect_rest (initial a b c) = initial a b c"
    "service_disconnect fromConnect (initial a b c) = initial a b c"
    "disconnectDevice False (initial a b c) = initial a b c"
    by (simp_all add: initial_def stopCommandLoop_def service_disconnect_rest_def
          service_disconnect_def disconnectDevice_def disconnect_done_def
          disconnectDevice_rest_def connect_finally_def Let_def)
  show ?thesis
    using stopped idem init by (simp add: stopCommandLoop_idem)
qed

text \<open>
  Claim C9. \<open>connect\<close> returns at once, changing nothing, when its closure holds
  \<open>isConnecting\<close> or \<open>isDisconnecting\<close>. In every state the program reaches at
  most one call of \<open>connect\<close> is in flight, and then the application is not connected
  and no disconnect is in progress; while a connect or a disconnect is in flight, a call
  of \<open>connect\<close> with the closure of the last render, and a click, are ignored.
\<close>

theorem connect_single_flight:
  "(closedConnecting \<or> closedDisconnecting \<longrightarrow>
      connect closedConnecting closedDisconnecting s = s) \<and>
   (let t = run evs (initial a b c)
    in length (connects t) \<le> 1 \<and>
       (connects t \<noteq> [] \<longrightarrow> \<not> isConnected t \<and> disconnects t = []) \<and>
       (connects t \<noteq> [] \<or> disconnects t \<noteq> [] \<longrightarrow>
          connect (seenConnecting t) (seenDisconnecting t) t = t \<and> click t = t))"
proof -
  define t where "t = run evs (initial a b c)"
  have inv: "app_inv t"
    unfolding t_def by (intro app_inv_run app_inv_initial)
  have len: "length (connects t) \<le> 1" using inv by (simp add: app_inv_def)
  have conn: "\<not> isConnected t \<and> disconnects t = []" if "connects t \<noteq> []"
  proof -
    have "length (connects t) + length (disconnects t) \<le> 1" "\<not> isConnected t"
      using inv that by (simp_all add: app_inv_def)
    then show ?thesis
      using that by (cases "connects t"; cases "disconnects t") simp_all
  qed
  have busy: "seenConnecting t \<or> seenDisconnecting t"
    if "connects t \<noteq> [] \<or> disconnects t \<noteq> []"
  proof (cases "connects t \<noteq> []")
    case True
    then show ?thesis using inv by (simp add: app_inv_def)
  next
    case False
    with that have "disconnects t \<noteq> []" by simp
    then have "True \<in> set (disconnects t) \<or> False \<in> set (disconnects t)"
      using no_bools [of "disconnects t"] by blast
    then show ?thesis using inv by (auto simp: app_inv_def)
  qed
  then have "connect (seenConnecting t) (seenDisconnecting t) t = t \<and> click t = t"
    if "connects t \<noteq> [] \<or> disconnects t \<noteq> []"
    using that by (auto simp: connect_def click_def)
  with len conn show ?thesis
    unfolding Let_def t_def [symmetric] by (simp add: connect_def)
qed

theorem connect_single_flight_witness:
  "connect True False (initial True True True) = initial True True True \<and>
   connects (run [Click] (initial True True True)) = [RequestingDevice] \<and>
   click (run [Click] (initial True True True)) = run [Click] (initial True True True) \<and>
   run [Click, Click] (initial True True True) = run [Click] (initial True True True) \<and>
   disconnects (run (connected_trace @ [Render, Click]) (initial True True True)) = [False] \<and>
   click (run (connected_trace @ [Render, Click]) (initial True True True)) =
     run (connected_trace @ [Render, Click]) (initial True True True)"
proof -
  let ?t = "run [Click] (initial True True True)"
  let ?u = "run (connected_trace @ [Render, Click]) (initial True True True)"
  have t: "connects ?t = [RequestingDevice]" "run [Click, Click] (initial True True True) = click ?t"
    by code_simp+
  have u: "disconnects ?u = [False]"
    by code_simp
  show ?thesis
    using connect_single_flight [where closedConnecting = True and closedDisconnecting = False
        and s = "initial True True True" and evs = "[Click]" and a = True and b = True
        and c = True]
      connect_single_flight [where closedConnecting = True and closedDisconnecting = False
        and s = "initial True True True" and evs = "connected_trace @ [Render, Click]"
        and a = True and b = True and c = True] t u
    by (simp add: Let_def)
qed

section \<open>Two runs that break a guarantee\<close>

text \<open>
  As long as nothing outside the loop stops it, at most one write is waiting.
\<close>

lemma single_flight_tick_failed:
  "writes s = [] \<Longrightarrow> single_flight (tick_failed e err s)"
  by (simp add: single_flight_def tick_failed_effect)

lemma single_flight_tick: "single_flight s \<Longrightarrow> single_flight (tick i g e c s)"
proof (cases "writeBusy s")
  case True
  assume "single_flight s"
  with True show ?thesis by (simp add: tick_def)
next
  case False
  assume "single_flight s"
  with False have w: "writes s = []" by (auto simp: single_flight_def)
  then have "single_flight (tick_failed e err (emit [GetCommand g] (s\<lparr>writeBusy := True\<rparr>)))" for err
    by (intro single_flight_tick_failed) (simp add: emit_def)
  then show ?thesis
    using False w
    by (auto simp: tick_def Let_def writeCommand_def single_flight_def emit_def
             split: sum.splits option.splits)
qed

lemma single_flight_writeSettles:
  "single_flight s \<Longrightarrow> single_flight (writeSettles k r s)"
proof (cases "k < length (writes s)")
  case False
  assume "single_flight s"
  with False show ?thesis by (simp add: writeSettles_def)
next
  case True
  assume "single_flight s"
  with True have "length (writes s) = 1" "k = 0" by (auto simp: single_flight_def)
  then have "take k (writes s) @ drop (Suc k) (writes s) = []" by simp
  then show ?thesis
    using True
    by (auto simp: writeSettles_def Let_def tick_finally_def single_flight_def
          tick_failed_effect split: option.splits)
qed

lemma single_flight_notification:
  "single_flight (notification view s) = single_flight s"
proof -
  have "single_flight (onNotify view t) = single_flight t" for t
    by (simp add: onNotify_def single_flight_def emit_def split: sum.splits)
  then have "single_flight (fold (\<lambda>l t. onNotify view t) ls t) = single_flight t"
    for ls :: "nat list" and t
    by (induction ls arbitrary: t) simp_all
  then show ?thesis by (simp add: notification_def)
qed

lemma single_flight_step:
  "single_flight s \<Longrightarrow> keeps_loop ev \<Longrightarrow> single_flight (step ev s)"
proof (cases ev)
  case (TimerFires i command)
  assume "single_flight s"
  then show ?thesis
    using TimerFires by (simp add: timerFires_def single_flight_tick split: option.splits prod.splits)
next
  case (WriteSettles k r)
  assume "single_flight s"
  then show ?thesis using WriteSettles by (simp add: single_flight_writeSettles)
next
  case (StartCommandLoop g e ms)
  assume "single_flight s"
  then show ?thesis
    using StartCommandLoop by (simp add: startCommandLoop_def single_flight_def emit_def Let_def)
next
  case Render
  assume "single_flight s"
  then show ?thesis using Render by (simp add: render_def single_flight_def)
next
  case (Notification view)
  assume "single_flight s"
  then show ?thesis using Notification by (simp add: single_flight_notification)
qed simp_all

lemma single_flight_until_stopped:
  "single_flight s \<Longrightarrow> list_all keeps_loop evs \<Longrightarrow> single_flight (run evs s)"
  unfolding run_def by (induction evs arbitrary: s) (simp_all add: single_flight_step)

lemma single_flight_connected: "single_flight (run connected_trace (initial True True True))"
  by code_simp

text \<open>
  Claim C1, evaluated where it fails. The loop 3 has a write waiting when it is stopped
  and the loop 4 is started. The loop 4 sends; the write of the loop 3 is fulfilled and its
  \<open>finally\<close> clears the busy flag; the next tick of the loop 4 sends again while the
  first write of the loop 4 is still waiting.
\<close>

theorem second_write_while_first_pending:
  "(let s = run (connected_trace @
                  [TimerFires 3 zero_command, StopCommandLoop, StartCommandLoop 0 0 50,
                   TimerFires 4 zero_command, WriteSettles 0 None])
                (initial True True True);
        t = timerFires 4 zero_command s
    in writes s = [(4, 0)] \<and> intervals s = [(4, 0, 0)] \<and>
       writes t = [(4, 0), (4, 0)] \<and>
       effects t = effects s @ [GetCommand 0,
                        WriteValueWithoutResponse [0, 0, 0, 0, 0, 0, 0, 0, 0, 0, 0, 0]])"
  by code_simp

text \<open>
  The same through the application alone: the user disconnects while a write is waiting,
  connects again, and the old write is fulfilled after the new loop has sent.
\<close>

lemma second_write_after_reconnect:
  "writes (run (connected_trace @
             [Render, TimerFires 3 zero_command, Click, StopNotificationsSettles 0 None,
              Render, Click, ConnectSettles 0 None, ConnectSettles 0 None,
              ConnectSettles 0 None, ConnectSettles 0 None, ConnectSettles 0 None,
              TimerFires 6 zero_command, WriteSettles 0 None, TimerFires 6 zero_command])
           (initial True True True)) = [(6, 0), (6, 0)]"
  by code_simp

text \<open>
  On a session that opened completely, \<open>disconnect\<close> removes the listener, and a
  later drop of the link changes nothing.
\<close>

lemma listener_removed_from_open_session:
  "(let s = run (connected_trace @ [Render, Click, StopNotificationsSettles 0 None])
              (initial True True True)
    in disconnectListeners s = [] \<and> \<not> serverConnected s \<and> linkDrops s = s \<and>
       effects s = [RequestDevice, GattConnect, SetInterval 3 50, ClearInterval 3,
                StopNotifications, GattDisconnect, OnDisconnect, ClearOdometry])"
  by code_simp

text \<open>
  Claim C7, evaluated where it fails. The device is chosen and its server connected, then
  \<open>getPrimaryService\<close> is rejected. The \<open>catch\<close> of \<open>connect\<close> runs
  \<open>disconnectDevice\<close> to its end: \<open>#device\<close> was never assigned, so the listener
  stays on the device and the server stays connected. When the link drops afterwards,
  \<open>onDisconnect\<close> is called and the alert of an unexpected disconnection is shown.
\<close>

theorem alert_after_disconnect_of_partial_session:
  "(let s = run [Click, ConnectSettles 0 None, ConnectSettles 0 None,
                 ConnectSettles 0 (Some (DOMException ''NotFoundError''
                    ''No Services matching UUID found in Device.''))]
                (initial True True True);
        t = linkDrops s
    in connects s = [] \<and> disconnects s = [] \<and> \<not> isConnecting s \<and> \<not> isDisconnecting s \<and>
       \<not> userDisconnectRef s \<and> device s = None \<and> disconnectHandler s = None \<and>
       serverConnected s \<and> disconnectListeners s = [1] \<and>
       effects s = [RequestDevice, GattConnect,
                ConsoleError (DOMException ''NotFoundError''
                    ''No Services matching UUID found in Device.''),
                Alert (Str ''No Services matching UUID found in Device.'')] \<and>
       effects t = effects s @ [OnDisconnect, ClearOdometry, Alert UnexpectedDisconnectText])"
  by code_simp

end
